theory Spec2Isabelle
  imports Main "HOL-Library.Word" "HOL-Library.Sublist"
begin

section \<open>Python primitives used by the sources\<close>

text \<open>
  Exceptions are values.  The constructors are the Python exception classes that the
  modelled functions can raise; \<open>OtherError\<close> carries the text of any other
  \<^verbatim>\<open>Exception\<close> an external collaborator reports.
\<close>

datatype py_error =
    TypeError
  | ValueError
  | SyntaxError
  | ZeroDivisionError
  | BadGzipFile
  | OSError
  | KeyError
  | TimeoutExpired
  | OtherError string

text \<open>
  \<^verbatim>\<open>str.replace(old, new)\<close>: every non-overlapping occurrence of \<open>old\<close>, found
  from the left, is replaced.  The counter is the number of characters of the current
  occurrence that are still to be skipped.  An empty \<open>old\<close> matches before every
  character and at the end.
\<close>

fun replace_from :: "string \<Rightarrow> string \<Rightarrow> nat \<Rightarrow> string \<Rightarrow> string" where
  "replace_from old new k [] = []"
| "replace_from old new (Suc k) (c # cs) = replace_from old new k cs"
| "replace_from old new 0 (c # cs) =
     (if take (length old) (c # cs) = old
      then new @ replace_from old new (length old - 1) cs
      else c # replace_from old new 0 cs)"

definition py_replace :: "string \<Rightarrow> string \<Rightarrow> string \<Rightarrow> string" where
  "py_replace s old new =
     (if old = [] then new @ concat (map (\<lambda>c. c # new) s)
      else replace_from old new 0 s)"



text \<open>
  \<^verbatim>\<open>str.split(sep)\<close> for a one-character separator: one piece more than there are
  separators, empty pieces kept.
\<close>

fun py_split :: "char \<Rightarrow> string \<Rightarrow> string list" where
  "py_split sep [] = [ [] ]"
| "py_split sep (c # cs) =
     (if c = sep then [] # py_split sep cs
      else (case py_split sep cs of
              [] \<Rightarrow> [ [c] ]
            | p # ps \<Rightarrow> (c # p) # ps))"

text \<open>
  \<^verbatim>\<open>str.isspace\<close> on one character.  A character is a code point below 256; among
  these Python counts as white space the codes 9 to 13, 28 to 32, 133 and 160.
  \<^verbatim>\<open>line.strip()\<close> is the empty string exactly when every character of the line is
  white space.
\<close>

definition py_isspace :: "char \<Rightarrow> bool" where
  "py_isspace c =
     (let n = (of_char c :: nat)
      in (9 \<le> n \<and> n \<le> 13) \<or> (28 \<le> n \<and> n \<le> 32) \<or> n = 133 \<or> n = 160)"

definition strip_nonempty :: "string \<Rightarrow> bool" where
  "strip_nonempty l = (\<exists>c \<in> set l. \<not> py_isspace c)"

text \<open>
  \<^verbatim>\<open>xs[n:]\<close> and \<^verbatim>\<open>xs[:n]\<close> for a Python integer \<open>n\<close>: a negative bound counts
  from the end, and bounds outside the list are clipped.
\<close>

definition slice_from :: "'a list \<Rightarrow> int \<Rightarrow> 'a list" where
  "slice_from xs n =
     (if 0 \<le> n then drop (nat n) xs else drop (nat (int (length xs) + n)) xs)"

definition slice_to :: "'a list \<Rightarrow> int \<Rightarrow> 'a list" where
  "slice_to xs n =
     (if 0 \<le> n then take (nat n) xs else take (nat (int (length xs) + n)) xs)"

section \<open>JSON values\<close>

text \<open>
  What \<^verbatim>\<open>json.loads\<close> returns.  An object is the list of its items in insertion
  order (Python keeps one item per key).  Numbers that are not integers play no part
  in the modelled code and are not represented.
\<close>

datatype json =
    JNull
  | JBool bool
  | JNumber int
  | JString string
  | JArray "json list"
  | JObject "(string \<times> json) list"



text \<open>
  \<^verbatim>\<open>for f in v\<close>: the elements of an array, the keys of an object, the characters of
  a string; a \<^verbatim>\<open>TypeError\<close> otherwise.
\<close>

fun py_iter :: "json \<Rightarrow> py_error + json list" where
  "py_iter (JArray xs) = Inr xs"
| "py_iter (JObject kvs) = Inr (map (\<lambda>kv. JString (fst kv)) kvs)"
| "py_iter (JString s) = Inr (map (\<lambda>c. JString [c]) s)"
| "py_iter v = Inl TypeError"

section \<open>Data model (poutine\_docker\_optimized.py, poutine\_docker.py)\<close>

text \<open>
  The dataclasses of the analyzers.  The scanner writes \<^verbatim>\<open>null\<close> for \<open>prev_sha\<close>
  and \<open>diff_relpath\<close> of a hit without predecessor or diff, and the JSON-lines loader
  passes the values through unchanged, so these two fields are optional.
\<close>

record CommitInfo =
  org :: string
  repo :: string
  workflow_path :: string
  commit_sha :: string
  commit_date :: string
  matched_keywords :: "string list"
  message :: string
  snapshot_relpath :: string
  prev_sha :: "string option"
  diff_relpath :: "string option"

record PoutineResult =
  success :: bool
  error_message :: "string option"
  findings_count :: int
  findings :: json
  raw_output :: string

text \<open>
  \<open>fixed_issues\<close> is built by \<^verbatim>\<open>list(before_issues - after_issues)\<close> from two Python
  sets; the order of that list is not determined by the program, so the field is a set.
\<close>

record ComparisonResult =
  commit_info :: CommitInfo
  before_result :: PoutineResult
  after_result :: PoutineResult
  weaknesses_reduced :: bool
  before_count :: int
  after_count :: int
  reduction_count :: int
  fixed_issues :: "string set"

section \<open>Before/after comparison\<close>

text \<open>
  \<^verbatim>\<open>compare_before_after\<close>, identical in the three analyzer modules.  The parameter
  \<open>backend\<close> stands for \<^verbatim>\<open>self.run_poutine_on_workflow(self.data_root / p)\<close>: the
  result of analysing the file at relative path \<open>p\<close>, or the exception the call lets
  escape.  \<open>str_of\<close> is Python's \<^verbatim>\<open>str\<close> on a finding.

  The first statement calls \<^verbatim>\<open>snapshot_relpath.replace(commit_sha, prev_sha)\<close>; with
  \<^verbatim>\<open>prev_sha = None\<close> that call raises \<^verbatim>\<open>TypeError\<close> before anything else happens.
\<close>

definition issue_keys :: "(json \<Rightarrow> string) \<Rightarrow> json \<Rightarrow> py_error + string set" where
  "issue_keys str_of fs =
     (case py_iter fs of Inl e \<Rightarrow> Inl e | Inr xs \<Rightarrow> Inr (set (map str_of xs)))"

definition fixed_issues_of ::
  "(json \<Rightarrow> string) \<Rightarrow> PoutineResult \<Rightarrow> PoutineResult \<Rightarrow> py_error + string set" where
  "fixed_issues_of str_of before_res after_res =
     (case issue_keys str_of (findings before_res) of
        Inl e \<Rightarrow> Inl e
      | Inr before_issues \<Rightarrow>
          (case issue_keys str_of (findings after_res) of
             Inl e \<Rightarrow> Inl e
           | Inr after_issues \<Rightarrow> Inr (before_issues - after_issues)))"

definition compare_results ::
  "(json \<Rightarrow> string) \<Rightarrow> CommitInfo \<Rightarrow> PoutineResult \<Rightarrow> PoutineResult
     \<Rightarrow> py_error + ComparisonResult" where
  "compare_results str_of commit before_res after_res =
     (let (reduction, reduced) =
            (if success before_res \<and> success after_res
             then (findings_count before_res - findings_count after_res,
                   findings_count before_res - findings_count after_res > 0)
             else (0, False));
          result = \<lparr>commit_info = commit,
                    before_result = before_res,
                    after_result = after_res,
                    weaknesses_reduced = reduced,
                    before_count = findings_count before_res,
                    after_count = findings_count after_res,
                    reduction_count = reduction,
                    fixed_issues = {}\<rparr>
      in if reduced
         then (case fixed_issues_of str_of before_res after_res of
                 Inl e \<Rightarrow> Inl e
               | Inr fixed \<Rightarrow> Inr (result\<lparr>fixed_issues := fixed\<rparr>))
         else Inr result)"

definition compare_before_after ::
  "(json \<Rightarrow> string) \<Rightarrow> (string \<Rightarrow> py_error + PoutineResult) \<Rightarrow> CommitInfo
     \<Rightarrow> py_error + ComparisonResult" where
  "compare_before_after str_of backend commit =
     (case prev_sha commit of
        None \<Rightarrow> Inl TypeError
      | Some prev \<Rightarrow>
          (let before_file = py_replace (snapshot_relpath commit) (commit_sha commit) prev;
               after_file = snapshot_relpath commit
           in case backend before_file of
                Inl e \<Rightarrow> Inl e
              | Inr before_res \<Rightarrow>
                  (case backend after_file of
                     Inl e \<Rightarrow> Inl e
                   | Inr after_res \<Rightarrow> compare_results str_of commit before_res after_res)))"

section \<open>Batch orchestrator (poutine\_docker\_batch.py)\<close>

text \<open>
  The output directory holds the progress file and the result log.  The result log is
  its text as Python's text-mode reader delivers it, line terminators being the newline
  character.

  The progress file is absent, or holds a progress object as \<^verbatim>\<open>save_progress\<close>
  writes it (the four keys, the counter an integer), or holds something else: a text on
  which \<^verbatim>\<open>json.load\<close> raises (empty, truncated, not JSON), a JSON value that is no
  object, or an object without the key \<open>processed_count\<close>.  For such a file the
  run raises the carried exception at line 51 or line 223, before anything is written.
\<close>

record Progress =
  processed_count :: int
  last_commit_sha :: "string option"
  start_time :: string
  last_update :: "string option"

datatype StoredProgress =
    NoProgressFile
  | BadProgressFile py_error
  | ProgressObject Progress

record OutputDir =
  progress_file :: StoredProgress
  results_file :: "string option"

text \<open>
  What the orchestrator obtains from outside: the clock reading, \<^verbatim>\<open>json.dumps\<close> of a
  result's dictionary, Python's \<^verbatim>\<open>str\<close> on a finding, the analysis backend, the
  exception that constructing the analyzer or \<^verbatim>\<open>_ensure_image\<close> raises when Docker or
  the image is not available, whether \<^verbatim>\<open>start_container\<close> succeeds, and the exception
  that \<^verbatim>\<open>generate_final_reports\<close> raises on a directory, if any (it parses every
  line of the log and reads the keys of a result from each).
\<close>

record World =
  clock :: string
  json_dumps :: "ComparisonResult \<Rightarrow> string"
  py_str :: "json \<Rightarrow> string"
  analyze :: "string \<Rightarrow> py_error + PoutineResult"
  docker_setup :: "py_error option"
  container_starts :: bool
  final_reports :: "OutputDir \<Rightarrow> py_error option"

record Args =
  resume :: bool
  limit :: "int option"
  batch_size :: int

definition fresh_progress :: "string \<Rightarrow> Progress" where
  "fresh_progress t =
     \<lparr>processed_count = 0, last_commit_sha = None, start_time = t, last_update = None\<rparr>"

definition load_progress :: "World \<Rightarrow> OutputDir \<Rightarrow> py_error + Progress" where
  "load_progress w d =
     (case progress_file d of
        NoProgressFile \<Rightarrow> Inr (fresh_progress (clock w))
      | BadProgressFile e \<Rightarrow> Inl e
      | ProgressObject p \<Rightarrow> Inr p)"

text \<open>
  \<^verbatim>\<open>save_progress\<close> stamps the dictionary it is given, which is the caller's own
  object, and writes it; both the stamped progress and the directory are returned.
\<close>

definition save_progress :: "World \<Rightarrow> Progress \<Rightarrow> OutputDir \<Rightarrow> Progress \<times> OutputDir" where
  "save_progress w p d =
     (let p' = p\<lparr>last_update := Some (clock w)\<rparr>
      in (p', d\<lparr>progress_file := ProgressObject p'\<rparr>))"

definition append_result :: "World \<Rightarrow> ComparisonResult \<Rightarrow> OutputDir \<Rightarrow> OutputDir" where
  "append_result w r d =
     d\<lparr>results_file :=
         Some ((case results_file d of None \<Rightarrow> [] | Some txt \<Rightarrow> txt)
               @ json_dumps w r @ [CHR 0x0A])\<rparr>"

text \<open>
  The lines of a text are the pieces between newlines; the piece after the last newline
  is empty or an unterminated last line, and a line counts when stripping it leaves
  something.
\<close>

definition count_lines :: "string \<Rightarrow> nat" where
  "count_lines txt = length (filter strip_nonempty (py_split (CHR 0x0A) txt))"

definition count_actual_results :: "OutputDir \<Rightarrow> int" where
  "count_actual_results d =
     (case results_file d of None \<Rightarrow> 0 | Some txt \<Rightarrow> int (count_lines txt))"

text \<open>Lines 219 to 229 of \<^verbatim>\<open>main\<close>: load the progress and check it against the log.\<close>

definition reconcile :: "World \<Rightarrow> OutputDir \<Rightarrow> py_error + Progress \<times> OutputDir" where
  "reconcile w d =
     (case load_progress w d of
        Inl e \<Rightarrow> Inl e
      | Inr progress \<Rightarrow>
          (let actual_count = count_actual_results d
           in if processed_count progress \<noteq> actual_count
              then Inr (save_progress w (progress\<lparr>processed_count := actual_count\<rparr>) d)
              else Inr (progress, d)))"

text \<open>Lines 231 to 243: a run that neither resumes nor finds results starts afresh.\<close>

definition starting_progress ::
  "World \<Rightarrow> Args \<Rightarrow> OutputDir \<Rightarrow> py_error + Progress \<times> OutputDir" where
  "starting_progress w a d =
     (case reconcile w d of
        Inl e \<Rightarrow> Inl e
      | Inr (progress, d') \<Rightarrow>
          if resume a \<or> processed_count progress > 0 then Inr (progress, d')
          else Inr (fresh_progress (clock w), d'))"

text \<open>
  Lines 257 to 265: the hits of this run.  \<^verbatim>\<open>if args.limit\<close> holds for a limit that
  is given and not zero.
\<close>

definition commits_to_process :: "Args \<Rightarrow> int \<Rightarrow> CommitInfo list \<Rightarrow> CommitInfo list" where
  "commits_to_process a done_count all_commits =
     (let rest = slice_from all_commits done_count
      in case limit a of
           None \<Rightarrow> rest
         | Some l \<Rightarrow>
             if l = 0 then rest
             else (let remaining = l - done_count
                   in if remaining > 0 then slice_to rest remaining else []))"

text \<open>
  Lines 290 to 326, one iteration per hit; the third component of the state lists the
  hits handed to \<^verbatim>\<open>compare_before_after\<close> so far.  Everything in the body sits in
  one \<^verbatim>\<open>try\<close>: an exception of the comparison skips the append and the counter
  update, and the remainder \<^verbatim>\<open>(i + 1) % args.batch_size\<close> raises
  \<^verbatim>\<open>ZeroDivisionError\<close> for a batch size of zero after the result has been appended;
  \<^verbatim>\<open>except Exception\<close> catches either and the loop goes on.  Interrupts from the
  keyboard arrive from outside and are not part of the model.
\<close>

type_synonym run_state = "Progress \<times> OutputDir \<times> CommitInfo list"

definition process_commit :: "World \<Rightarrow> Args \<Rightarrow> nat \<Rightarrow> CommitInfo \<Rightarrow> run_state \<Rightarrow> run_state" where
  "process_commit w a i commit st =
     (case st of (progress, d, seen) \<Rightarrow>
        (case compare_before_after (py_str w) (analyze w) commit of
           Inl e \<Rightarrow> (progress, d, seen @ [commit])
         | Inr result \<Rightarrow>
             (let d1 = append_result w result d;
                  p1 = progress\<lparr>processed_count := count_actual_results d1,
                                last_commit_sha := Some (commit_sha commit)\<rparr>
              in if batch_size a = 0 then (p1, d1, seen @ [commit])
                 else if (int i + 1) mod batch_size a = 0
                 then (case save_progress w p1 d1 of (p2, d2) \<Rightarrow> (p2, d2, seen @ [commit]))
                 else (p1, d1, seen @ [commit]))))"

fun process_commits :: "World \<Rightarrow> Args \<Rightarrow> nat \<Rightarrow> CommitInfo list \<Rightarrow> run_state \<Rightarrow> run_state" where
  "process_commits w a i [] st = st"
| "process_commits w a i (commit # rest) st =
     process_commits w a (Suc i) rest (process_commit w a i commit st)"

text \<open>
  \<^verbatim>\<open>main\<close>.  The list of hits is the loaded input file.  The result is the return
  value of \<^verbatim>\<open>main\<close>, the exception that ended it (if any), the progress dictionary
  at the end (if the run got one), the directory and the hits handed to the comparison.
  \<^verbatim>\<open>generate_final_reports\<close> runs where no hit is left to process and at the end of
  a run that processed hits; it writes report files only, which are no part of the
  directory state, and its exception ends \<^verbatim>\<open>main\<close>.
\<close>

record RunResult =
  returned :: "int option"
  run_raised :: "py_error option"
  final_progress :: "Progress option"
  out_dir :: OutputDir
  compared :: "CommitInfo list"

definition main :: "World \<Rightarrow> Args \<Rightarrow> CommitInfo list \<Rightarrow> OutputDir \<Rightarrow> RunResult" where
  "main w a all_commits d =
     (case starting_progress w a d of
        Inl e \<Rightarrow>
          \<lparr>returned = None, run_raised = Some e, final_progress = None, out_dir = d,
           compared = []\<rparr>
      | Inr (progress, d0) \<Rightarrow>
        (let todo = commits_to_process a (processed_count progress) all_commits
         in if todo = []
            then \<lparr>returned = None, run_raised = final_reports w d0,
                  final_progress = Some progress, out_dir = d0, compared = []\<rparr>
            else if docker_setup w \<noteq> None
            then \<lparr>returned = None, run_raised = docker_setup w,
                  final_progress = Some progress, out_dir = d0, compared = []\<rparr>
            else if \<not> container_starts w
            then \<lparr>returned = Some 1, run_raised = None, final_progress = Some progress,
                  out_dir = d0, compared = []\<rparr>
            else (case process_commits w a 0 todo (progress, d0, []) of
                    (p1, d1, seen) \<Rightarrow>
                      (case save_progress w p1 d1 of
                         (p2, d2) \<Rightarrow>
                           \<lparr>returned = None, run_raised = final_reports w d2,
                            final_progress = Some p2, out_dir = d2,
                            compared = seen\<rparr>))))"

text \<open>
  A log is terminated when it is absent, empty, or ends with a newline; every log that
  \<^verbatim>\<open>append_result\<close> alone has written is.
\<close>

definition log_terminated :: "OutputDir \<Rightarrow> bool" where
  "log_terminated d =
     (case results_file d of None \<Rightarrow> True | Some txt \<Rightarrow> txt = [] \<or> last txt = CHR 0x0A)"

text \<open>
  What the orchestrator relies on in \<^verbatim>\<open>json.dumps\<close>: the text of a result is not
  blank and holds no raw newline.
\<close>

definition sane_dumps :: "World \<Rightarrow> bool" where
  "sane_dumps w = (\<forall>r. strip_nonempty (json_dumps w r) \<and> CHR 0x0A \<notin> set (json_dumps w r))"

text \<open>
  Whether the comparison of a hit returns a result; one iteration of the loop adds an
  entry to the log exactly then.
\<close>

definition compares :: "World \<Rightarrow> CommitInfo \<Rightarrow> bool" where
  "compares w c = (\<not> isl (compare_before_after (py_str w) (analyze w) c))"

text \<open>
  Lines 97 to 100 of \<^verbatim>\<open>scan_repo_workflow_json\<close>: the \<open>prev_sha\<close> of the hit at
  index \<open>idx\<close> of a history, given the \<open>sha\<close> of each commit of the history, newest
  first.
\<close>

definition scanned_prev_sha :: "string option list \<Rightarrow> nat \<Rightarrow> string option" where
  "scanned_prev_sha shas idx = (if idx + 1 < length shas then shas ! (idx + 1) else None)"

section \<open>Example inputs for the orchestrator\<close>

text \<open>
  The first default keyword pattern of the scanner.
\<close>

definition ex_pattern :: string where
  "ex_pattern = [CHR 0x5C] @ ''bfix(?:es|ed)?'' @ [CHR 0x5C] @ ''b''"

text \<open>
  A hit at the oldest index of its history (no predecessor), a hit with a predecessor,
  and a hit whose predecessor snapshot is missing; a world whose backend reports two
  findings for the snapshot at commit \<open>a0\<close>, a failed analysis for the snapshot at
  commit \<open>zz\<close> and no findings elsewhere.
\<close>

definition ex_oldest_hit :: CommitInfo where
  "ex_oldest_hit =
     \<lparr>org = ''o'', repo = ''r'', workflow_path = ''.github/workflows/ci.yml'',
      commit_sha = ''b1'', commit_date = ''2024-06-17'', matched_keywords = [ex_pattern],
      message = ''fix checkout step'', snapshot_relpath = ''raw/o/r/ci.yml/b1.yml'',
      prev_sha = None, diff_relpath = None\<rparr>"

definition ex_hit :: CommitInfo where
  "ex_hit =
     \<lparr>org = ''o'', repo = ''r'', workflow_path = ''.github/workflows/ci.yml'',
      commit_sha = ''c2'', commit_date = ''2024-06-18'', matched_keywords = [ex_pattern],
      message = ''fix checkout step'', snapshot_relpath = ''raw/o/r/ci.yml/c2.yml'',
      prev_sha = Some ''a0'', diff_relpath = None\<rparr>"

definition ex_lost_hit :: CommitInfo where
  "ex_lost_hit =
     \<lparr>org = ''o'', repo = ''r'', workflow_path = ''.github/workflows/ci.yml'',
      commit_sha = ''d3'', commit_date = ''2024-06-19'', matched_keywords = [ex_pattern],
      message = ''fix checkout step'', snapshot_relpath = ''raw/o/r/ci.yml/d3.yml'',
      prev_sha = Some ''zz'', diff_relpath = None\<rparr>"

definition ex_analysis :: "int \<Rightarrow> PoutineResult" where
  "ex_analysis n =
     \<lparr>success = True, error_message = None, findings_count = n, findings = JArray [],
      raw_output = []\<rparr>"

definition ex_failure :: PoutineResult where
  "ex_failure =
     \<lparr>success = False, error_message = Some ''Workflow file not found'',
      findings_count = 0, findings = JArray [], raw_output = []\<rparr>"

definition ex_backend :: "string \<Rightarrow> py_error + PoutineResult" where
  "ex_backend p =
     (if p = ''raw/o/r/ci.yml/a0.yml'' then Inr (ex_analysis 2)
      else if p = ''raw/o/r/ci.yml/zz.yml'' then Inr ex_failure
      else Inr (ex_analysis 0))"

definition ex_world :: World where
  "ex_world =
     \<lparr>clock = ''2024-07-01T00:00:00'', json_dumps = (\<lambda>r. ''{}''),
      py_str = (\<lambda>j. ''finding''), analyze = ex_backend, docker_setup = None,
      container_starts = True, final_reports = (\<lambda>d. None)\<rparr>"

definition ex_args :: Args where
  "ex_args = \<lparr>resume = False, limit = None, batch_size = 100\<rparr>"

definition ex_empty_dir :: OutputDir where
  "ex_empty_dir = \<lparr>progress_file = NoProgressFile, results_file = None\<rparr>"



text \<open>
  The same world with the text of a result cut down to the sha of its hit, so that the
  entries of a log can be told apart.
\<close>

definition ex_sha_world :: World where
  "ex_sha_world = ex_world\<lparr>json_dumps := (\<lambda>r. commit_sha (commit_info r))\<rparr>"

section \<open>Analysis backends (poutine\_docker\_optimized.py, poutine\_docker.py, poutine\_analysis\_fixed.py)\<close>






















section \<open>Index scanner reports (scan\_security\_index\_and\_diffs.py)\<close>

text \<open>
  The scanner keeps its entries as dictionaries: lists of items in insertion order whose
  values are \<^verbatim>\<open>None\<close>, a string, or a list of strings.
\<close>

datatype cell = CNone | CStr string | CList "string list"

type_synonym pydict = "(string \<times> cell) list"

definition opt_cell :: "string option \<Rightarrow> cell" where
  "opt_cell v = (case v of None \<Rightarrow> CNone | Some s \<Rightarrow> CStr s)"

text \<open>The entry that \<^verbatim>\<open>scan_repo_workflow_json\<close> builds for a hit (lines 132 to 143).\<close>

definition hit_entry :: "CommitInfo \<Rightarrow> pydict" where
  "hit_entry h =
     [(''org'', CStr (org h)),
      (''repo'', CStr (repo h)),
      (''workflow_path'', CStr (workflow_path h)),
      (''commit_sha'', CStr (commit_sha h)),
      (''commit_date'', CStr (commit_date h)),
      (''matched_keywords'', CList (matched_keywords h)),
      (''message'', CStr (message h)),
      (''snapshot_relpath'', CStr (snapshot_relpath h)),
      (''prev_sha'', opt_cell (prev_sha h)),
      (''diff_relpath'', opt_cell (diff_relpath h))]"

text \<open>The entry that \<^verbatim>\<open>main\<close> records when scanning a workflow raised (lines 190 to 193).\<close>

definition error_entry :: "string \<Rightarrow> string \<Rightarrow> string \<Rightarrow> string \<Rightarrow> pydict" where
  "error_entry org_name repo_name wf_path e =
     [(''org'', CStr org_name),
      (''repo'', CStr repo_name),
      (''workflow_path'', CNone),
      (''commit_sha'', CNone),
      (''error'', CStr (wf_path @ '': '' @ e))]"

text \<open>
  One index document found by the directory walk, with what
  \<^verbatim>\<open>scan_repo_workflow_json\<close> does on it: the hits it returns, or the text of the
  exception it raises.
\<close>

record WorkflowIndex =
  wf_org :: string
  wf_repo :: string
  wf_json :: string
  scan_outcome :: "string + CommitInfo list"

fun collect_hits :: "WorkflowIndex list \<Rightarrow> pydict list" where
  "collect_hits [] = []"
| "collect_hits (doc # rest) =
     (case scan_outcome doc of
        Inr repo_hits \<Rightarrow> map hit_entry repo_hits
      | Inl e \<Rightarrow> [error_entry (wf_org doc) (wf_repo doc) (wf_json doc) e])
     @ collect_hits rest"

definition csv_fields :: "string list" where
  "csv_fields =
     [''org'', ''repo'', ''workflow_path'', ''commit_sha'', ''commit_date'',
      ''matched_keywords'', ''snapshot_relpath'', ''prev_sha'', ''diff_relpath'', ''message'']"

text \<open>\<^verbatim>\<open>sep.join(xs)\<close>.\<close>

fun py_join :: "string \<Rightarrow> string list \<Rightarrow> string" where
  "py_join sep [] = []"
| "py_join sep [x] = x"
| "py_join sep (x # y # ys) = x @ sep @ py_join sep (y # ys)"

text \<open>Lines 208 to 211: the row is a copy whose keyword list is joined with a bar.\<close>

definition concise_row :: "pydict \<Rightarrow> pydict" where
  "concise_row h =
     map (\<lambda>kv. case kv of
            (k, CList ks) \<Rightarrow> if k = ''matched_keywords'' then (k, CStr (py_join ''|'' ks))
                             else kv
          | _ \<Rightarrow> kv) h"

text \<open>
  \<^verbatim>\<open>csv.DictWriter.writerow\<close> with the default \<^verbatim>\<open>extrasaction='raise'\<close> and
  \<^verbatim>\<open>restval=''\<close>: a key outside the field names raises \<^verbatim>\<open>ValueError\<close>, a missing
  field is written empty, \<^verbatim>\<open>None\<close> is written empty.  A file is the list of its rows
  of cell texts, which is what quoting and unquoting preserve.  \<open>str_of_list\<close> is
  Python's \<^verbatim>\<open>str\<close> on a list, which the writer applies to a list-valued cell.
\<close>

definition csv_text :: "(string list \<Rightarrow> string) \<Rightarrow> cell \<Rightarrow> string" where
  "csv_text str_of_list v =
     (case v of CNone \<Rightarrow> [] | CStr s \<Rightarrow> s | CList xs \<Rightarrow> str_of_list xs)"

definition dict_to_list ::
  "(string list \<Rightarrow> string) \<Rightarrow> string list \<Rightarrow> pydict \<Rightarrow> py_error + string list" where
  "dict_to_list str_of_list fieldnames rowdict =
     (if \<exists>k \<in> set (map fst rowdict). k \<notin> set fieldnames then Inl ValueError
      else Inr (map (\<lambda>k. case map_of rowdict k of
                           None \<Rightarrow> []
                         | Some v \<Rightarrow> csv_text str_of_list v) fieldnames))"

text \<open>The loop over the hits: the rows written, and the exception that ended it, if any.\<close>

fun write_rows ::
  "(string list \<Rightarrow> string) \<Rightarrow> pydict list \<Rightarrow> string list list \<times> py_error option" where
  "write_rows str_of_list [] = ([], None)"
| "write_rows str_of_list (h # hs) =
     (case dict_to_list str_of_list csv_fields (concise_row h) of
        Inl e \<Rightarrow> ([], Some e)
      | Inr cells \<Rightarrow>
          (case write_rows str_of_list hs of (rows, e) \<Rightarrow> (cells # rows, e)))"

text \<open>
  \<^verbatim>\<open>main\<close> of the scanner from line 184 on, over the index documents the walk found:
  the entries written to the JSON-lines report, the rows of the CSV report, whether the
  README was reached, and the exception that ended the run, if any.
\<close>

record ScanOutput =
  hits_jsonl :: "pydict list"
  hits_csv :: "string list list"
  readme_written :: bool
  raised :: "py_error option"

definition scan_main :: "(string list \<Rightarrow> string) \<Rightarrow> WorkflowIndex list \<Rightarrow> ScanOutput" where
  "scan_main str_of_list docs =
     (let hits = collect_hits docs
      in case write_rows str_of_list hits of
           (rows, e) \<Rightarrow>
             \<lparr>hits_jsonl = hits, hits_csv = csv_fields # rows,
              readme_written = (e = None), raised = e\<rparr>)"

section \<open>Loading the CSV hit list (load\_commits\_from\_csv)\<close>

text \<open>
  \<^verbatim>\<open>csv.DictReader\<close>: the first row is the header; every later row that is not
  empty becomes a dictionary keyed by the header, in which a cell missing from a short
  row is \<^verbatim>\<open>None\<close> and the cells of a long row beyond the header are set aside.
  A key bound twice holds its last value.
\<close>

definition dict_row :: "string list \<Rightarrow> string list \<Rightarrow> (string \<times> string option) list" where
  "dict_row fieldnames row =
     zip fieldnames (map Some row @ replicate (length fieldnames - length row) None)"

definition csv_dict_rows :: "string list list \<Rightarrow> (string \<times> string option) list list" where
  "csv_dict_rows file =
     (case file of
        [] \<Rightarrow> []
      | header # rows \<Rightarrow> map (dict_row header) (filter (\<lambda>r. r \<noteq> []) rows))"

definition row_get :: "(string \<times> string option) list \<Rightarrow> string \<Rightarrow> py_error + string option" where
  "row_get row k = (case map_of (rev row) k of None \<Rightarrow> Inl KeyError | Some v \<Rightarrow> Inr v)"

definition bind_err :: "py_error + 'a \<Rightarrow> ('a \<Rightarrow> py_error + 'b) \<Rightarrow> py_error + 'b" where
  "bind_err m f = (case m of Inl e \<Rightarrow> Inl e | Inr v \<Rightarrow> f v)"

text \<open>
  A commit as the CSV loader builds it: every field is the cell (its text, or
  \<^verbatim>\<open>None\<close>), except the keywords, which are whatever \<^verbatim>\<open>eval\<close> returned on a cell
  that is neither \<^verbatim>\<open>None\<close> nor empty, and the empty list otherwise.
\<close>

record CsvCommit =
  csv_org :: "string option"
  csv_repo :: "string option"
  csv_workflow_path :: "string option"
  csv_commit_sha :: "string option"
  csv_commit_date :: "string option"
  csv_matched_keywords :: json
  csv_message :: "string option"
  csv_snapshot_relpath :: "string option"
  csv_prev_sha :: "string option"
  csv_diff_relpath :: "string option"

definition eval_keywords ::
  "(string \<Rightarrow> py_error + json) \<Rightarrow> string option \<Rightarrow> py_error + json" where
  "eval_keywords eval keywords_str =
     (case keywords_str of
        None \<Rightarrow> Inr (JArray [])
      | Some src \<Rightarrow> if src \<noteq> [] then eval src else Inr (JArray []))"

definition load_csv_row ::
  "(string \<Rightarrow> py_error + json) \<Rightarrow> (string \<times> string option) list \<Rightarrow> py_error + CsvCommit" where
  "load_csv_row eval row =
     bind_err (row_get row ''matched_keywords'') (\<lambda>keywords_str.
     bind_err (eval_keywords eval keywords_str) (\<lambda>keywords.
     bind_err (row_get row ''org'') (\<lambda>v_org.
     bind_err (row_get row ''repo'') (\<lambda>v_repo.
     bind_err (row_get row ''workflow_path'') (\<lambda>v_path.
     bind_err (row_get row ''commit_sha'') (\<lambda>v_sha.
     bind_err (row_get row ''commit_date'') (\<lambda>v_date.
     bind_err (row_get row ''message'') (\<lambda>v_message.
     bind_err (row_get row ''snapshot_relpath'') (\<lambda>v_snapshot.
     bind_err (row_get row ''prev_sha'') (\<lambda>v_prev.
     bind_err (row_get row ''diff_relpath'') (\<lambda>v_diff.
       Inr \<lparr>csv_org = v_org, csv_repo = v_repo, csv_workflow_path = v_path,
            csv_commit_sha = v_sha, csv_commit_date = v_date,
            csv_matched_keywords = keywords, csv_message = v_message,
            csv_snapshot_relpath = v_snapshot, csv_prev_sha = v_prev,
            csv_diff_relpath = v_diff\<rparr>)))))))))))"

fun load_commits_from_csv ::
  "(string \<Rightarrow> py_error + json) \<Rightarrow> (string \<times> string option) list list
     \<Rightarrow> py_error + CsvCommit list" where
  "load_commits_from_csv eval [] = Inr []"
| "load_commits_from_csv eval (row # rows) =
     bind_err (load_csv_row eval row) (\<lambda>c.
     bind_err (load_commits_from_csv eval rows) (\<lambda>cs. Inr (c # cs)))"

text \<open>
  Python's \<^verbatim>\<open>eval\<close>, as far as the model knows it.  Leading blanks and tabs are
  skipped; an empty source is a \<^verbatim>\<open>SyntaxError\<close>; a source that then starts with a
  backslash is one too, unless a line break follows the backslash (a line
  continuation).  On every other source the result is that of the parameter \<open>interp\<close>.
\<close>

definition py_eval :: "(string \<Rightarrow> py_error + json) \<Rightarrow> string \<Rightarrow> py_error + json" where
  "py_eval interp src =
     (case dropWhile (\<lambda>c. c = CHR '' '' \<or> c = CHR 0x09) src of
        [] \<Rightarrow> Inl SyntaxError
      | c # rest \<Rightarrow>
          if c = CHR 0x5C
             \<and> (case rest of [] \<Rightarrow> True | d # ds \<Rightarrow> d \<noteq> CHR 0x0A \<and> d \<noteq> CHR 0x0D)
          then Inl SyntaxError
          else interp src)"

text \<open>
  A hit of the scanner that matched the first default pattern and no other, an index
  document that yields this hit, and one, later in the sorted walk, whose parse raises.
\<close>

definition ex_scanned_hit :: CommitInfo where
  "ex_scanned_hit =
     \<lparr>org = ''o'', repo = ''r'', workflow_path = ''.github/workflows/ci.yml'',
      commit_sha = ''c2'', commit_date = ''2024-06-18'', matched_keywords = [ex_pattern],
      message = ''fix checkout step'', snapshot_relpath = ''raw/o/r/ci.yml/c2.yml'',
      prev_sha = Some ''a0'', diff_relpath = None\<rparr>"

definition ex_good_index :: WorkflowIndex where
  "ex_good_index =
     \<lparr>wf_org = ''o'', wf_repo = ''r'', wf_json = ''data/index/o/r/workflows/ci.json'',
      scan_outcome = Inr [ex_scanned_hit]\<rparr>"

definition ex_bad_index :: WorkflowIndex where
  "ex_bad_index =
     \<lparr>wf_org = ''o'', wf_repo = ''r'', wf_json = ''data/index/o/r/workflows/release.json'',
      scan_outcome = Inl ''Expecting value: line 1 column 1 (char 0)''\<rparr>"

section \<open>Snapshot paths (normalize\_relpath)\<close>

text \<open>
  Paths follow \<^verbatim>\<open>pathlib\<close> of CPython 3.12 on a POSIX host, where \<^verbatim>\<open>Path\<close> is
  \<^verbatim>\<open>PosixPath\<close>.  A path is the list of its parts, the anchor first when there is
  one; two paths are equal when their parts are.  The components of a relative text are
  its pieces between separators without the empty pieces and the single dots.
\<close>

definition components :: "char \<Rightarrow> string \<Rightarrow> string list" where
  "components sep rel = filter (\<lambda>x. x \<noteq> [] \<and> x \<noteq> ''.'') (py_split sep rel)"

text \<open>
  \<^verbatim>\<open>PurePosixPath(p).parts\<close>: the root is one slash, or two when the text starts
  with exactly two slashes.
\<close>

definition posix_parts :: "string \<Rightarrow> string list" where
  "posix_parts p =
     (case p of
        [] \<Rightarrow> []
      | c # cs \<Rightarrow>
          if c \<noteq> CHR ''/'' then components (CHR ''/'') p
          else if take 1 cs = ''/'' \<and> take 1 (drop 1 cs) \<noteq> ''/''
          then ''//'' # components (CHR ''/'') (drop 1 cs)
          else ''/'' # components (CHR ''/'') cs)"

text \<open>\<^verbatim>\<open>s.find(c, start)\<close> and \<^verbatim>\<open>c.upper()\<close> on the letters a to z.\<close>

fun find_char :: "char \<Rightarrow> nat \<Rightarrow> string \<Rightarrow> nat option" where
  "find_char c i [] = None"
| "find_char c i (x # xs) = (if x = c then Some i else find_char c (Suc i) xs)"

definition find_from :: "string \<Rightarrow> char \<Rightarrow> nat \<Rightarrow> nat option" where
  "find_from s c start = find_char c start (drop start s)"

definition ascii_upper :: "char \<Rightarrow> char" where
  "ascii_upper c =
     (let n = (of_char c :: nat) in if 97 \<le> n \<and> n \<le> 122 then char_of (n - 32) else c)"

text \<open>
  \<^verbatim>\<open>ntpath.splitroot\<close> on a text whose slashes have been turned into backslashes:
  drive, root and the rest.  A text starting with two backslashes is a UNC or device
  path, one starting with a single backslash is rooted, one with a colon in second place
  has a drive.
\<close>

definition nt_splitroot :: "string \<Rightarrow> string \<times> string \<times> string" where
  "nt_splitroot p =
     (if take 1 p = [CHR 0x5C]
      then (if take 1 (drop 1 p) = [CHR 0x5C]
            then (let start = (if map ascii_upper (take 8 p)
                                    = [CHR 0x5C, CHR 0x5C, CHR ''?'', CHR 0x5C,
                                       CHR ''U'', CHR ''N'', CHR ''C'', CHR 0x5C]
                               then 8 else 2)
                  in case find_from p (CHR 0x5C) start of
                       None \<Rightarrow> (p, [], [])
                     | Some index \<Rightarrow>
                         (case find_from p (CHR 0x5C) (index + 1) of
                            None \<Rightarrow> (p, [], [])
                          | Some index2 \<Rightarrow>
                              (take index2 p, take 1 (drop index2 p), drop (index2 + 1) p)))
            else ([], take 1 p, drop 1 p))
      else if take 1 (drop 1 p) = '':''
      then (if take 1 (drop 2 p) = [CHR 0x5C]
            then (take 2 p, take 1 (drop 2 p), drop 3 p)
            else (take 2 p, [], drop 2 p))
      else ([], [], p))"

text \<open>\<^verbatim>\<open>PureWindowsPath(p).parts\<close>: the anchor (drive and root), then the components.\<close>

definition windows_parts :: "string \<Rightarrow> string list" where
  "windows_parts p0 =
     (if p0 = [] then []
      else (let p = map (\<lambda>c. if c = CHR ''/'' then CHR 0x5C else c) p0
            in case nt_splitroot p of
                 (drv, root, rel) \<Rightarrow>
                   (let drv_parts = py_split (CHR 0x5C) drv;
                        root' =
                          (if root = [] \<and> take 1 drv = [CHR 0x5C] \<and> last drv \<noteq> CHR 0x5C
                           then (if length drv_parts = 4
                                    \<and> drv_parts ! 2 \<notin> set [ [], ''?'', ''.'', ''?.'']
                                 then [CHR 0x5C]
                                 else if length drv_parts = 6 then [CHR 0x5C]
                                 else root)
                           else root);
                        parsed = components (CHR 0x5C) rel
                    in if drv @ root' \<noteq> [] then (drv @ root') # parsed else parsed)))"

text \<open>
  \<^verbatim>\<open>posixpath.join\<close>, and the parts of the \<^verbatim>\<open>Path\<close> built from several segments:
  the segments are joined and the result is parsed.
\<close>

definition join_step :: "string \<Rightarrow> string \<Rightarrow> string" where
  "join_step path b =
     (if take 1 b = ''/'' then b
      else if path = [] \<or> last path = CHR ''/'' then path @ b
      else path @ ''/'' @ b)"

definition posix_join :: "string list \<Rightarrow> string" where
  "posix_join segments = (case segments of [] \<Rightarrow> [] | a # rest \<Rightarrow> foldl join_step a rest)"

definition path_of :: "string list \<Rightarrow> string list" where
  "path_of segments = posix_parts (posix_join segments)"

text \<open>
  \<^verbatim>\<open>normalize_relpath\<close>: the parts of the path it returns.  \<open>resolve_under\<close> is
  \<^verbatim>\<open>root / rel_path\<close> for the dataset root given as text.
\<close>

definition windows_style :: "string \<Rightarrow> bool" where
  "windows_style rel = (CHR 0x5C \<in> set rel \<and> CHR ''/'' \<notin> set rel)"

definition normalize_relpath :: "string \<Rightarrow> string list" where
  "normalize_relpath rel =
     path_of (if windows_style rel then windows_parts rel else posix_parts rel)"

definition resolve_under :: "string \<Rightarrow> string list \<Rightarrow> string list" where
  "resolve_under root rel_path = path_of (root # rel_path)"

text \<open>Replacing every backslash of a text by a slash.\<close>

definition to_slash :: "char \<Rightarrow> char" where
  "to_slash c = (if c = CHR 0x5C then CHR ''/'' else c)"

text \<open>
  Relative paths of one snapshot: with backslashes, with slashes, and with one of each.
\<close>

definition ex_backslash_relpath :: string where
  "ex_backslash_relpath = ''raw'' @ [CHR 0x5C] @ ''o'' @ [CHR 0x5C] @ ''c2.yml''"

definition ex_mixed_relpath :: string where
  "ex_mixed_relpath = ''raw'' @ [CHR 0x5C] @ ''o/c2.yml''"

section \<open>Reading snapshot text (read\_text\_maybe\_gz)\<close>

text \<open>
  Bytes are 8-bit words and a decoded text is the list of its code points.  The UTF-8
  decoder follows CPython: \<open>utf8_step\<close> looks at the front of the input and gives the
  code point of a well-formed sequence, or \<open>None\<close> for an ill-formed one, with the
  number of bytes to consume (for an ill-formed sequence, its well-formed start, at
  least one byte).
\<close>

type_synonym byte = "8 word"

type_synonym py_text = "nat list"

definition continuation :: "byte \<Rightarrow> bool" where
  "continuation b = (0x80 \<le> unat b \<and> unat b \<le> 0xBF)"

definition low6 :: "byte \<Rightarrow> nat" where
  "low6 b = unat b - 0x80"

definition second_of3 :: "nat \<Rightarrow> byte \<Rightarrow> bool" where
  "second_of3 lead b =
     (if lead = 0xE0 then 0xA0 \<le> unat b \<and> unat b \<le> 0xBF
      else if lead = 0xED then 0x80 \<le> unat b \<and> unat b \<le> 0x9F
      else continuation b)"

definition second_of4 :: "nat \<Rightarrow> byte \<Rightarrow> bool" where
  "second_of4 lead b =
     (if lead = 0xF0 then 0x90 \<le> unat b \<and> unat b \<le> 0xBF
      else if lead = 0xF4 then 0x80 \<le> unat b \<and> unat b \<le> 0x8F
      else continuation b)"

definition utf8_step :: "byte \<Rightarrow> byte list \<Rightarrow> nat option \<times> nat" where
  "utf8_step b0 bs =
     (let lead = unat b0
      in if lead < 0x80 then (Some lead, 1)
         else if lead < 0xC2 then (None, 1)
         else if lead < 0xE0
         then (case bs of
                 [] \<Rightarrow> (None, 1)
               | b1 # bs1 \<Rightarrow>
                   if continuation b1 then (Some ((lead - 0xC0) * 64 + low6 b1), 2)
                   else (None, 1))
         else if lead < 0xF0
         then (case bs of
                 [] \<Rightarrow> (None, 1)
               | b1 # bs1 \<Rightarrow>
                   if second_of3 lead b1
                   then (case bs1 of
                           [] \<Rightarrow> (None, 2)
                         | b2 # bs2 \<Rightarrow>
                             if continuation b2
                             then (Some ((lead - 0xE0) * 4096 + low6 b1 * 64 + low6 b2), 3)
                             else (None, 2))
                   else (None, 1))
         else if lead < 0xF5
         then (case bs of
                 [] \<Rightarrow> (None, 1)
               | b1 # bs1 \<Rightarrow>
                   if second_of4 lead b1
                   then (case bs1 of
                           [] \<Rightarrow> (None, 2)
                         | b2 # bs2 \<Rightarrow>
                             if continuation b2
                             then (case bs2 of
                                     [] \<Rightarrow> (None, 3)
                                   | b3 # bs3 \<Rightarrow>
                                       if continuation b3
                                       then (Some ((lead - 0xF0) * 262144 + low6 b1 * 4096
                                                   + low6 b2 * 64 + low6 b3), 4)
                                       else (None, 3))
                             else (None, 2))
                   else (None, 1))
         else (None, 1))"

function utf8_scan :: "byte list \<Rightarrow> nat option list" where
  "utf8_scan [] = []"
| "utf8_scan (b # bs) =
     (case utf8_step b bs of (r, n) \<Rightarrow> r # utf8_scan (drop (n - 1) bs))"
  by pat_completeness auto
termination
  by (relation "measure length") auto

text \<open>
  \<^verbatim>\<open>bytes.decode('utf-8', errors=...)\<close>: \<^verbatim>\<open>strict\<close> raises at an ill-formed
  sequence, \<^verbatim>\<open>ignore\<close> leaves it out, \<^verbatim>\<open>replace\<close> puts U+FFFD in its place.
  \<^verbatim>\<open>bytes.decode('latin-1')\<close> maps every byte to the code point of the same number.
\<close>

datatype errors_policy = Strict | Ignore | Replace

definition decode_utf8 :: "errors_policy \<Rightarrow> byte list \<Rightarrow> py_error + py_text" where
  "decode_utf8 errors data =
     (let marks = utf8_scan data
      in case errors of
           Strict \<Rightarrow> if None \<in> set marks then Inl ValueError else Inr (map the marks)
         | Ignore \<Rightarrow> Inr (concat (map (\<lambda>m. case m of None \<Rightarrow> [] | Some c \<Rightarrow> [c]) marks))
         | Replace \<Rightarrow> Inr (map (\<lambda>m. case m of None \<Rightarrow> 0xFFFD | Some c \<Rightarrow> c) marks))"

definition decode_latin1 :: "byte list \<Rightarrow> py_text" where
  "decode_latin1 data = map unat data"

text \<open>
  The UTF-8 encoding of a code point, as the values of its bytes, and the code points
  that have one: the Unicode scalar values, which leave out the surrogates.
\<close>

definition scalar_value :: "nat \<Rightarrow> bool" where
  "scalar_value cp = (cp < 0xD800 \<or> (0xE000 \<le> cp \<and> cp < 0x110000))"

definition utf8_bytes :: "nat \<Rightarrow> nat list" where
  "utf8_bytes cp =
     (if cp < 0x80 then [cp]
      else if cp < 0x800 then [0xC0 + cp div 64, 0x80 + cp mod 64]
      else if cp < 0x10000
      then [0xE0 + cp div 4096, 0x80 + (cp div 64) mod 64, 0x80 + cp mod 64]
      else [0xF0 + cp div 262144, 0x80 + (cp div 4096) mod 64, 0x80 + (cp div 64) mod 64,
            0x80 + cp mod 64])"

text \<open>
  Text-mode reading turns the line ends CR LF and CR into LF.
\<close>

fun universal_newlines :: "py_text \<Rightarrow> py_text" where
  "universal_newlines [] = []"
| "universal_newlines [x] = [if x = 13 then 10 else x]"
| "universal_newlines (x # y # ys) =
     (if x = 13 \<and> y = 10 then 10 # universal_newlines ys
      else (if x = 13 then 10 else x) # universal_newlines (y # ys))"

text \<open>
  \<^verbatim>\<open>PurePath.suffix\<close> of a file name: the text from the last dot on, when that dot is
  neither the first nor the last character of the name.
\<close>

definition suffix_of :: "string \<Rightarrow> string" where
  "suffix_of name =
     (if CHR ''.'' \<notin> set name then []
      else (let i = length name - length (takeWhile (\<lambda>c. c \<noteq> CHR ''.'') (rev name)) - 1
            in if 0 < i \<and> i < length name - 1 then drop i name else []))"

text \<open>
  \<^verbatim>\<open>read_text_maybe_gz\<close> for a path with the given file name.  \<open>gz_read\<close> is what
  \<^verbatim>\<open>gzip.open(path, "rb")\<close> and \<^verbatim>\<open>f.read()\<close> give, the decompressed bytes or the
  exception raised; \<open>raw_read\<close> is what reading the bytes of the file gives.  Neither
  read sits inside a \<^verbatim>\<open>try\<close>.
\<close>

definition read_text_maybe_gz ::
  "string \<Rightarrow> py_error + byte list \<Rightarrow> py_error + byte list \<Rightarrow> py_error + py_text" where
  "read_text_maybe_gz name gz_read raw_read =
     (if suffix_of name = ''.gz''
      then (case gz_read of
              Inl e \<Rightarrow> Inl e
            | Inr data \<Rightarrow>
                (case decode_utf8 Ignore data of
                   Inr s \<Rightarrow> Inr s
                 | Inl e \<Rightarrow> Inr (decode_latin1 data)))
      else (case raw_read of
              Inl e \<Rightarrow> Inl e
            | Inr data \<Rightarrow>
                (case decode_utf8 Ignore data of
                   Inr s \<Rightarrow> Inr (universal_newlines s)
                 | Inl e \<Rightarrow> Inl e)))"

text \<open>The bytes of \<open>a\<close>, an invalid byte, and \<open>b\<close>.\<close>

definition ex_corrupt_bytes :: "byte list" where
  "ex_corrupt_bytes = [0x61, 0xFF, 0x62]"

text \<open>
  The letter \<open>e\<close> with an acute accent in two bytes, the first two of the three bytes
  of the euro sign, and \<open>A\<close>.
\<close>

definition ex_truncated_bytes :: "byte list" where
  "ex_truncated_bytes = [0xC3, 0xA9, 0xE2, 0x82, 0x41]"

section \<open>Properties of the comparison and of the orchestrator\<close>

lemma compare_results_invariant:
  assumes "compare_results str_of commit b a = Inr r"
  shows "before_result r = b \<and> after_result r = a
     \<and> before_count r = findings_count b \<and> after_count r = findings_count a
     \<and> reduction_count r = (if success b \<and> success a then findings_count b - findings_count a else 0)
     \<and> weaknesses_reduced r = (success b \<and> success a \<and> findings_count b - findings_count a > 0)"
  using assms
  by (auto simp: compare_results_def Let_def split: if_splits sum.splits)

text \<open>
  Claim C1.  For every comparison result that \<^verbatim>\<open>compare_before_after\<close> returns,
  \<open>weaknesses_reduced\<close> holds exactly when both analyses succeeded and
  \<open>reduction_count\<close> equals \<open>before_count - after_count\<close> and is positive; and when
  either analysis failed, \<open>weaknesses_reduced\<close> is false and \<open>reduction_count\<close> is 0.
\<close>

theorem reduction_invariant:
  assumes "compare_before_after str_of backend commit = Inr r"
  shows "(weaknesses_reduced r \<longleftrightarrow>
            success (before_result r) \<and> success (after_result r)
            \<and> reduction_count r = before_count r - after_count r \<and> reduction_count r > 0)
       \<and> (\<not> (success (before_result r) \<and> success (after_result r))
            \<longrightarrow> \<not> weaknesses_reduced r \<and> reduction_count r = 0)"
proof -
  from assms obtain prev b a where
    "compare_results str_of commit b a = Inr r"
    by (auto simp: compare_before_after_def Let_def split: option.splits sum.splits)
  from compare_results_invariant [OF this] show ?thesis by auto
qed

theorem reduction_invariant_witness:
  "(\<exists>r. compare_before_after (py_str ex_world) (analyze ex_world) ex_hit = Inr r
        \<and> success (before_result r) \<and> success (after_result r)
        \<and> weaknesses_reduced r \<and> reduction_count r = 2)
   \<and> (\<exists>r. compare_before_after (py_str ex_world) (analyze ex_world) ex_lost_hit = Inr r
        \<and> \<not> success (before_result r)
        \<and> \<not> weaknesses_reduced r \<and> reduction_count r = 0)"
proof -
  let ?cmp = "compare_before_after (py_str ex_world) (analyze ex_world)"
  obtain r1 where r1: "?cmp ex_hit = Inr r1" "before_count r1 = 2" "after_count r1 = 0"
      "success (before_result r1)" "success (after_result r1)" "weaknesses_reduced r1"
    by (simp add: compare_before_after_def compare_results_def fixed_issues_of_def
        issue_keys_def ex_world_def ex_hit_def ex_backend_def ex_analysis_def py_replace_def)
  obtain r2 where r2: "?cmp ex_lost_hit = Inr r2" "\<not> success (before_result r2)"
    by (simp add: compare_before_after_def compare_results_def ex_world_def ex_lost_hit_def
        ex_backend_def ex_analysis_def ex_failure_def py_replace_def)
  from reduction_invariant [OF r1(1)] r1 have "weaknesses_reduced r1 \<and> reduction_count r1 = 2"
    by simp
  moreover from reduction_invariant [OF r2(1)] r2
  have "\<not> weaknesses_reduced r2 \<and> reduction_count r2 = 0"
    by simp
  ultimately show ?thesis using r1 r2 by blast
qed

lemma compared_process_commit:
  "snd (snd (process_commit w a i c (p, d, seen))) = seen @ [c]"
  by (simp add: process_commit_def Let_def split: sum.splits prod.splits)

lemma compared_process_commits:
  "snd (snd (process_commits w a i todo (p, d, seen))) = seen @ todo"
proof (induction todo arbitrary: i p d seen)
  case Nil
  then show ?case by simp
next
  case (Cons c cs)
  obtain p' d' s' where st: "process_commit w a i c (p, d, seen) = (p', d', s')"
    by (metis prod_cases3)
  with compared_process_commit [of w a i c p d seen] have "s' = seen @ [c]" by simp
  then show ?case using Cons.IH st by simp
qed

lemma reconcile_ok:
  assumes "reconcile w d = Inr (p, d')"
  shows "processed_count p = count_actual_results d"
    and "results_file d' = results_file d"
  using assms
  by (auto simp: reconcile_def Let_def save_progress_def split: sum.splits if_splits)

lemma reconcile_total:
  assumes "\<forall>e. progress_file d \<noteq> BadProgressFile e"
  shows "\<exists>p d'. reconcile w d = Inr (p, d')"
  using assms
  by (cases "progress_file d")
     (auto simp: reconcile_def load_progress_def Let_def save_progress_def)


lemma starting_of_reconcile:
  assumes "reconcile w d = Inr (p, d')"
  shows "\<exists>p1. starting_progress w a d = Inr (p1, d') \<and> processed_count p1 = processed_count p"
  using assms reconcile_ok(1) [OF assms] count_actual_results_def [of d]
  by (auto simp: starting_progress_def fresh_progress_def split: option.splits)

lemma starting_ok:
  assumes "starting_progress w a d = Inr (p, d0)"
  shows "processed_count p = count_actual_results d"
    and "results_file d0 = results_file d"
proof -
  from assms obtain q d' where r: "reconcile w d = Inr (q, d')"
    by (auto simp: starting_progress_def split: sum.splits)
  from starting_of_reconcile [OF r, of a] assms reconcile_ok [OF r]
  show "processed_count p = count_actual_results d" and "results_file d0 = results_file d"
    by auto
qed


lemma starting_total:
  assumes "\<forall>e. progress_file d \<noteq> BadProgressFile e"
  shows "\<exists>p d0. starting_progress w a d = Inr (p, d0)"
proof -
  from reconcile_total [OF assms] obtain q d' where "reconcile w d = Inr (q, d')" by blast
  from starting_of_reconcile [OF this] show ?thesis by blast
qed

lemma compared_main:
  assumes "\<forall>e. progress_file d \<noteq> BadProgressFile e"
  shows "compared (main w a hits d) =
     (if docker_setup w = None \<and> container_starts w
      then commits_to_process a (count_actual_results d) hits else [])"
proof -
  from starting_total [OF assms] obtain p d0 where s: "starting_progress w a d = Inr (p, d0)"
    by blast
  with starting_ok(1) [OF s] have pc: "processed_count p = count_actual_results d" by simp
  let ?todo = "commits_to_process a (count_actual_results d) hits"
  show ?thesis
  proof (cases "?todo = [] \<or> docker_setup w \<noteq> None \<or> \<not> container_starts w")
    case True
    then show ?thesis using s pc by (auto simp: main_def Let_def)
  next
    case False
    obtain p1 d1 seen where r: "process_commits w a 0 ?todo (p, d0, []) = (p1, d1, seen)"
      by (metis prod_cases3)
    with compared_process_commits [of w a 0 ?todo p d0 "[]"]
    have "seen = ?todo" by simp
    then show ?thesis using False s pc r by (simp add: main_def Let_def split: prod.splits)
  qed
qed


lemma py_split_nonempty: "py_split sep s \<noteq> []"
  by (induction s) (auto split: list.splits)

lemma py_split_append:
  "py_split sep (xs @ sep # ys) = py_split sep xs @ py_split sep ys"
  by (induction xs) (auto split: list.splits simp: py_split_nonempty)

lemma py_split_none: "sep \<notin> set s \<Longrightarrow> py_split sep s = [s]"
  by (induction s) auto






text \<open>
  Claim C10.  The scanner gives the hit at the oldest index of a history no
  predecessor.  For a hit without predecessor (\<open>prev_sha\<close> is \<^verbatim>\<open>None\<close>) the
  comparison raises while computing the before-file path and returns no result; the
  orchestrator's iteration for that hit catches the exception, leaves progress and
  result log untouched, and goes on with the next hit.
\<close>

theorem no_predecessor_raises:
  assumes "prev_sha commit = None"
  shows "scanned_prev_sha shas (length shas - 1) = None
       \<and> compare_before_after str_of backend commit = Inl TypeError
       \<and> process_commit w a i commit (p, d, seen) = (p, d, seen @ [commit])
       \<and> process_commits w a i (commit # rest) (p, d, seen) =
           process_commits w a (Suc i) rest (p, d, seen @ [commit])"
  using assms
  by (cases shas) (simp_all add: scanned_prev_sha_def compare_before_after_def
      process_commit_def)

theorem no_predecessor_raises_witness:
  "prev_sha ex_oldest_hit = None
   \<and> compare_before_after (py_str ex_world) (analyze ex_world) ex_oldest_hit = Inl TypeError
   \<and> process_commits ex_world ex_args 0 [ex_oldest_hit]
        (fresh_progress (clock ex_world), ex_empty_dir, [])
       = (fresh_progress (clock ex_world), ex_empty_dir, [ex_oldest_hit])"
proof -
  have h: "prev_sha ex_oldest_hit = None" by (simp add: ex_oldest_hit_def)
  from no_predecessor_raises [OF h, of "[]" "py_str ex_world" "analyze ex_world" ex_world
      ex_args 0 "fresh_progress (clock ex_world)" ex_empty_dir "[]" "[]"] h
  show ?thesis by simp
qed

lemma count_lines_append:
  assumes "t = [] \<or> last t = CHR 0x0A" "CHR 0x0A \<notin> set s" "strip_nonempty s"
  shows "count_lines (t @ s @ [CHR 0x0A]) = Suc (count_lines t)"
proof (cases "t = []")
  case True
  have "py_split (CHR 0x0A) (s @ CHR 0x0A # []) = py_split (CHR 0x0A) s @ py_split (CHR 0x0A) []"
    by (rule py_split_append)
  then show ?thesis using True assms
    by (simp add: count_lines_def py_split_none strip_nonempty_def)
next
  case False
  with assms obtain t0 where t: "t = t0 @ [CHR 0x0A]"
    by (metis append_butlast_last_id)
  have a: "py_split (CHR 0x0A) t = py_split (CHR 0x0A) t0 @ [ [] ]"
    unfolding t using py_split_append [of "CHR 0x0A" t0 "[]"] by simp
  have "t @ s @ [CHR 0x0A] = t0 @ CHR 0x0A # (s @ CHR 0x0A # [])" by (simp add: t)
  then have "py_split (CHR 0x0A) (t @ s @ [CHR 0x0A])
      = py_split (CHR 0x0A) t0 @ py_split (CHR 0x0A) s @ py_split (CHR 0x0A) []"
    by (simp only: py_split_append)
  then show ?thesis using a assms
    by (simp add: count_lines_def py_split_none strip_nonempty_def)
qed

lemma append_result_count:
  assumes "log_terminated d" "sane_dumps w"
  shows "count_actual_results (append_result w r d) = count_actual_results d + 1"
    and "log_terminated (append_result w r d)"
proof -
  from assms(2) have s: "CHR 0x0A \<notin> set (json_dumps w r)" "strip_nonempty (json_dumps w r)"
    by (auto simp: sane_dumps_def)
  show "count_actual_results (append_result w r d) = count_actual_results d + 1"
  proof (cases "results_file d")
    case None
    then show ?thesis using count_lines_append [of "[]" "json_dumps w r"] s
      by (simp add: count_actual_results_def append_result_def count_lines_def
          strip_nonempty_def)
  next
    case (Some t)
    with assms(1) have "t = [] \<or> last t = CHR 0x0A" by (simp add: log_terminated_def)
    from count_lines_append [OF this s] Some show ?thesis
      by (simp add: count_actual_results_def append_result_def)
  qed
  show "log_terminated (append_result w r d)"
    by (simp add: log_terminated_def append_result_def)
qed

lemma process_commit_count:
  assumes "log_terminated d" "sane_dumps w"
  shows "count_actual_results (fst (snd (process_commit w a i c (p, d, seen))))
           = count_actual_results d + (if compares w c then 1 else 0)"
    and "log_terminated (fst (snd (process_commit w a i c (p, d, seen))))"
proof -
  show "count_actual_results (fst (snd (process_commit w a i c (p, d, seen))))
           = count_actual_results d + (if compares w c then 1 else 0)"
  proof (cases "compare_before_after (py_str w) (analyze w) c")
    case (Inl e)
    then show ?thesis by (simp add: process_commit_def compares_def)
  next
    case (Inr r)
    then have "results_file (fst (snd (process_commit w a i c (p, d, seen))))
        = results_file (append_result w r d)"
      by (simp add: process_commit_def Let_def save_progress_def)
    with append_result_count(1) [OF assms, of r] Inr show ?thesis
      by (simp add: count_actual_results_def compares_def)
  qed
  show "log_terminated (fst (snd (process_commit w a i c (p, d, seen))))"
  proof (cases "compare_before_after (py_str w) (analyze w) c")
    case (Inl e)
    then show ?thesis using assms(1) by (simp add: process_commit_def)
  next
    case (Inr r)
    then have "results_file (fst (snd (process_commit w a i c (p, d, seen))))
        = results_file (append_result w r d)"
      by (simp add: process_commit_def Let_def save_progress_def)
    with append_result_count(2) [OF assms, of r] show ?thesis
      by (simp add: log_terminated_def)
  qed
qed

lemma process_commits_count:
  assumes "log_terminated d" "sane_dumps w"
  shows "count_actual_results (fst (snd (process_commits w a i todo (p, d, seen))))
           = count_actual_results d + int (length (filter (compares w) todo))"
  using assms
proof (induction todo arbitrary: i p d seen)
  case Nil
  then show ?case by simp
next
  case (Cons c cs)
  obtain p' d' s' where st: "process_commit w a i c (p, d, seen) = (p', d', s')"
    by (metis prod_cases3)
  from process_commit_count [OF Cons.prems, of a i c p seen] st
  have d': "count_actual_results d' = count_actual_results d + (if compares w c then 1 else 0)"
    "log_terminated d'"
    by simp_all
  from Cons.IH [OF d'(2) Cons.prems(2), of "Suc i" p' s'] d'(1) st
  show ?case by simp
qed

lemma count_nonneg: "0 \<le> count_actual_results d"
  by (simp add: count_actual_results_def split: option.splits)

text \<open>
  After a run that got through its hits, the log holds one more entry for every hit
  whose comparison returned a result, and none for the others.
\<close>

lemma main_log_count:
  assumes "\<forall>e. progress_file d \<noteq> BadProgressFile e"
    "docker_setup w = None \<and> container_starts w" "log_terminated d" "sane_dumps w"
  shows "count_actual_results (out_dir (main w a hits d))
       = count_actual_results d
         + int (length (filter (compares w)
                  (commits_to_process a (count_actual_results d) hits)))"
    and "\<forall>e. progress_file (out_dir (main w a hits d)) \<noteq> BadProgressFile e"
proof -
  let ?todo = "commits_to_process a (count_actual_results d) hits"
  from starting_total [OF assms(1)] obtain p d0 where
    s: "starting_progress w a d = Inr (p, d0)" by blast
  note ok = starting_ok [OF s]
  from ok(2) assms(3) have t0: "log_terminated d0" by (simp add: log_terminated_def)
  from ok(2) have c0: "count_actual_results d0 = count_actual_results d"
    by (simp add: count_actual_results_def)
  have b0: "\<forall>e. progress_file d0 \<noteq> BadProgressFile e"
    using s assms(1)
    by (auto simp: starting_progress_def reconcile_def Let_def save_progress_def
        split: sum.splits if_splits)
  show "count_actual_results (out_dir (main w a hits d))
       = count_actual_results d + int (length (filter (compares w) ?todo))"
  proof (cases "?todo = []")
    case True
    then show ?thesis using s ok(1) c0 by (simp add: main_def)
  next
    case False
    obtain p1 d1 seen where r: "process_commits w a 0 ?todo (p, d0, []) = (p1, d1, seen)"
      by (metis prod_cases3)
    from process_commits_count [OF t0 assms(4), of a 0 ?todo p "[]"] r c0
    have "count_actual_results d1
        = count_actual_results d + int (length (filter (compares w) ?todo))" by simp
    moreover have "out_dir (main w a hits d) = snd (save_progress w p1 d1)"
      using False s ok(1) r assms(2) by (simp add: main_def split: prod.splits)
    moreover have "count_actual_results (snd (save_progress w p1 d1)) = count_actual_results d1"
      by (simp add: save_progress_def count_actual_results_def Let_def)
    ultimately show ?thesis by simp
  qed
  show "\<forall>e. progress_file (out_dir (main w a hits d)) \<noteq> BadProgressFile e"
  proof (cases "?todo = []")
    case True
    then show ?thesis using s ok(1) b0 by (simp add: main_def)
  next
    case False
    obtain p1 d1 seen where r: "process_commits w a 0 ?todo (p, d0, []) = (p1, d1, seen)"
      by (metis prod_cases3)
    have "out_dir (main w a hits d) = snd (save_progress w p1 d1)"
      using False s ok(1) r assms(2) by (simp add: main_def split: prod.splits)
    then show ?thesis by (simp add: save_progress_def Let_def)
  qed
qed

text \<open>
  Running again, without a limit, on the directory a run from an empty log left
  behind: the hits compared are those from the number of results on, and not those
  from the number of hits on.  Every hit whose comparison raised moves the start one
  place back into hits that already have an entry.
\<close>

lemma rerun_after_failures:
  assumes "\<forall>e. progress_file d \<noteq> BadProgressFile e" "results_file d = None"
    "docker_setup w = None \<and> container_starts w" "sane_dumps w"
    "limit a = None" "limit a' = None"
  shows "compared (main w a' hits (out_dir (main w a hits d)))
       = drop (length (filter (compares w) hits)) hits"
proof -
  have t: "log_terminated d" using assms(2) by (simp add: log_terminated_def)
  have c: "count_actual_results d = 0" using assms(2) by (simp add: count_actual_results_def)
  have todo: "commits_to_process a 0 hits = hits"
    using assms(5) by (simp add: commits_to_process_def slice_from_def)
  from main_log_count [OF assms(1,3) t assms(4), of a hits] c todo
  have n: "count_actual_results (out_dir (main w a hits d))
      = int (length (filter (compares w) hits))"
    and b: "\<forall>e. progress_file (out_dir (main w a hits d)) \<noteq> BadProgressFile e"
    by simp_all
  from compared_main [OF b, of w a' hits] assms(3,6) n show ?thesis
    by (simp add: commits_to_process_def slice_from_def)
qed

text \<open>
  Claim C3 at its failing input: a list of two hits, the first without predecessor, run
  from an empty directory, each entry of the log shown as the sha of its hit.  The run
  gets through both hits and ends without exception, but the first comparison raises
  and leaves no entry, so the log holds one entry, of the second hit, for two hits.
  The second run, with the resume flag, takes the log's length as the index into the
  list, compares the second hit again and appends a second entry for it: one more hit
  is processed and the log is not what it was.
\<close>

theorem resume_repeats_logged_hit:
  "compared (main ex_sha_world ex_args [ex_oldest_hit, ex_hit] ex_empty_dir)
     = [ex_oldest_hit, ex_hit]
   \<and> run_raised (main ex_sha_world ex_args [ex_oldest_hit, ex_hit] ex_empty_dir) = None
   \<and> results_file (out_dir (main ex_sha_world ex_args [ex_oldest_hit, ex_hit] ex_empty_dir))
       = Some (''c2'' @ [CHR 0x0A])
   \<and> compared (main ex_sha_world (ex_args\<lparr>resume := True\<rparr>) [ex_oldest_hit, ex_hit]
        (out_dir (main ex_sha_world ex_args [ex_oldest_hit, ex_hit] ex_empty_dir))) = [ex_hit]
   \<and> results_file (out_dir (main ex_sha_world (ex_args\<lparr>resume := True\<rparr>) [ex_oldest_hit, ex_hit]
        (out_dir (main ex_sha_world ex_args [ex_oldest_hit, ex_hit] ex_empty_dir))))
       = Some (''c2'' @ [CHR 0x0A] @ ''c2'' @ [CHR 0x0A])"
  by code_simp

section \<open>Properties of the analysis backends\<close>




section \<open>Properties of the scanner's reports and of the CSV loader\<close>

lemma dict_to_list_error:
  "dict_to_list sl fs row = Inl e \<Longrightarrow> e = ValueError"
  by (simp add: dict_to_list_def split: if_splits)

lemma write_rows_raises:
  assumes "h \<in> set hs" "dict_to_list sl csv_fields (concise_row h) = Inl ValueError"
  shows "snd (write_rows sl hs) = Some ValueError"
  using assms
proof (induction hs)
  case Nil
  then show ?case by simp
next
  case (Cons x xs)
  show ?case
  proof (cases "dict_to_list sl csv_fields (concise_row x)")
    case (Inl e)
    with dict_to_list_error [OF Inl] show ?thesis by simp
  next
    case (Inr cells)
    with Cons.prems have "h \<in> set xs" by auto
    from Cons.IH [OF this Cons.prems(2)] Inr show ?thesis
      by (cases "write_rows sl xs") simp
  qed
qed

lemma error_entry_rejected:
  "dict_to_list sl csv_fields (concise_row (error_entry o_name r_name p e)) = Inl ValueError"
  by (simp add: dict_to_list_def concise_row_def error_entry_def csv_fields_def)

lemma error_entry_collected:
  "doc \<in> set docs \<Longrightarrow> scan_outcome doc = Inl e \<Longrightarrow>
     error_entry (wf_org doc) (wf_repo doc) (wf_json doc) e \<in> set (collect_hits docs)"
  by (induction docs) auto

lemma scan_raises_on_error_entry:
  assumes "doc \<in> set docs" "scan_outcome doc = Inl e"
  shows "raised (scan_main sl docs) = Some ValueError"
    and "\<not> readme_written (scan_main sl docs)"
proof -
  from write_rows_raises [OF error_entry_collected [OF assms] error_entry_rejected, of sl]
  have "snd (write_rows sl (collect_hits docs)) = Some ValueError" .
  then show "raised (scan_main sl docs) = Some ValueError"
    and "\<not> readme_written (scan_main sl docs)"
    by (cases "write_rows sl (collect_hits docs)"; simp add: scan_main_def Let_def)+
qed

text \<open>
  Claim C4 at its failing input: one index document that yields a hit and one whose
  parse raises.  The error entry is recorded beside the hit and both reach the
  JSON-lines report, but the CSV writer raises \<^verbatim>\<open>ValueError\<close> on the error entry,
  whose key \<open>error\<close> is not a field name; the CSV report stops after the hit's row and
  the README is never written.
\<close>

theorem malformed_index_aborts_report:
  "hits_jsonl (scan_main sl [ex_good_index, ex_bad_index])
     = [hit_entry ex_scanned_hit,
        error_entry ''o'' ''r'' ''data/index/o/r/workflows/release.json''
          ''Expecting value: line 1 column 1 (char 0)'']
   \<and> length (hits_csv (scan_main sl [ex_good_index, ex_bad_index])) = 2
   \<and> raised (scan_main sl [ex_good_index, ex_bad_index]) = Some ValueError
   \<and> readme_written (scan_main sl [ex_good_index, ex_bad_index]) = False"
  by (simp add: scan_main_def ex_good_index_def ex_bad_index_def ex_scanned_hit_def
      dict_to_list_def concise_row_def hit_entry_def error_entry_def csv_fields_def
      opt_cell_def)

text \<open>
  Claim C7 at its failing input: a hit that matched the first default pattern.  The
  scanner writes the pattern text itself into the keywords cell, and the loader hands
  that text to \<^verbatim>\<open>eval\<close>, which rejects a source starting with a backslash; loading
  the scanner's own CSV report raises \<^verbatim>\<open>SyntaxError\<close> instead of recovering the list.
\<close>

theorem csv_keywords_not_recovered:
  "map (\<lambda>row. row_get row ''matched_keywords'')
       (csv_dict_rows (hits_csv (scan_main sl [ex_good_index]))) = [Inr (Some ex_pattern)]
   \<and> load_commits_from_csv (py_eval interp)
        (csv_dict_rows (hits_csv (scan_main sl [ex_good_index]))) = Inl SyntaxError"
  by (simp add: scan_main_def ex_good_index_def ex_scanned_hit_def dict_to_list_def
      concise_row_def hit_entry_def csv_fields_def csv_dict_rows_def csv_text_def
      dict_row_def load_csv_row_def eval_keywords_def row_get_def bind_err_def py_eval_def
      ex_pattern_def opt_cell_def)

section \<open>Properties of path resolution\<close>

lemma split_to_slash:
  "CHR ''/'' \<notin> set w \<Longrightarrow> py_split (CHR ''/'') (map to_slash w) = py_split (CHR 0x5C) w"
  by (induction w) (auto simp: to_slash_def split: list.splits)

text \<open>
  Claim C8, as amended.  A relative path is read as a Windows path exactly when it
  holds a backslash and no slash, and as a POSIX path otherwise; its parts are rejoined
  into a path.  For a text without slash that neither starts with a backslash nor has a
  colon in second place (no root, no drive), the path is made of the components between
  backslashes, and the text with every backslash replaced by a slash gives the same
  path, also when resolved under a dataset root.
\<close>

theorem separators_resolve_alike:
  "normalize_relpath rel =
     path_of (if CHR 0x5C \<in> set rel \<and> CHR ''/'' \<notin> set rel then windows_parts rel
              else posix_parts rel)
   \<and> (CHR ''/'' \<notin> set w \<and> take 1 w \<noteq> [CHR 0x5C] \<and> take 1 (drop 1 w) \<noteq> '':'' \<longrightarrow>
        normalize_relpath w = path_of (components (CHR 0x5C) w)
        \<and> normalize_relpath (map to_slash w) = normalize_relpath w
        \<and> resolve_under root (normalize_relpath (map to_slash w))
            = resolve_under root (normalize_relpath w))"
proof -
  have first: "normalize_relpath rel =
     path_of (if CHR 0x5C \<in> set rel \<and> CHR ''/'' \<notin> set rel then windows_parts rel
              else posix_parts rel)"
    by (simp add: normalize_relpath_def windows_style_def)
  have second: "normalize_relpath w = path_of (components (CHR 0x5C) w)
        \<and> normalize_relpath (map to_slash w) = normalize_relpath w
        \<and> resolve_under root (normalize_relpath (map to_slash w))
            = resolve_under root (normalize_relpath w)"
    if h: "CHR ''/'' \<notin> set w" "take 1 w \<noteq> [CHR 0x5C]" "take 1 (drop 1 w) \<noteq> '':''"
  proof -
    have id: "map (\<lambda>c. if c = CHR ''/'' then CHR 0x5C else c) w = w"
      using h(1) by (induction w) auto
    have sr: "nt_splitroot w = ([], [], w)"
      using h(2,3) by (simp add: nt_splitroot_def)
    have win: "w \<noteq> [] \<Longrightarrow> windows_parts w = components (CHR 0x5C) w"
      by (simp add: windows_parts_def id sr Let_def)
    have pos: "posix_parts (map to_slash w) = components (CHR ''/'') (map to_slash w)"
      using h(1,2) by (cases w) (auto simp: posix_parts_def to_slash_def components_def)
    have comp: "components (CHR ''/'') (map to_slash w) = components (CHR 0x5C) w"
      using split_to_slash [OF h(1)] by (simp add: components_def)
    have a: "normalize_relpath w = path_of (components (CHR 0x5C) w)"
    proof (cases "CHR 0x5C \<in> set w")
      case True
      then have "w \<noteq> []" by auto
      with True h(1) win show ?thesis by (simp add: normalize_relpath_def windows_style_def)
    next
      case False
      then have "map to_slash w = w" by (induction w) (auto simp: to_slash_def)
      with False pos comp show ?thesis by (simp add: normalize_relpath_def windows_style_def)
    qed
    have "\<not> windows_style (map to_slash w)"
      by (auto simp: windows_style_def to_slash_def)
    then have b: "normalize_relpath (map to_slash w) = path_of (components (CHR 0x5C) w)"
      using pos comp by (simp add: normalize_relpath_def)
    from a b show ?thesis by simp
  qed
  from first second show ?thesis by blast
qed

theorem separators_resolve_alike_witness:
  "CHR ''/'' \<notin> set ex_backslash_relpath
   \<and> map to_slash ex_backslash_relpath = ''raw/o/c2.yml''
   \<and> normalize_relpath ex_backslash_relpath = [''raw'', ''o'', ''c2.yml'']
   \<and> normalize_relpath ''raw/o/c2.yml'' = normalize_relpath ex_backslash_relpath
   \<and> resolve_under ''/data'' (normalize_relpath ''raw/o/c2.yml'')
       = resolve_under ''/data'' (normalize_relpath ex_backslash_relpath)"
proof -
  have h: "CHR ''/'' \<notin> set ex_backslash_relpath \<and> take 1 ex_backslash_relpath \<noteq> [CHR 0x5C]
      \<and> take 1 (drop 1 ex_backslash_relpath) \<noteq> '':''"
    by (simp add: ex_backslash_relpath_def)
  have m: "map to_slash ex_backslash_relpath = ''raw/o/c2.yml''"
    by (simp add: ex_backslash_relpath_def to_slash_def)
  have c: "path_of (components (CHR 0x5C) ex_backslash_relpath) = [''raw'', ''o'', ''c2.yml'']"
    by (simp add: ex_backslash_relpath_def components_def path_of_def posix_join_def
        join_step_def posix_parts_def)
  from separators_resolve_alike [where w = ex_backslash_relpath and root = "''/data''",
      THEN conjunct2, rule_format, OF h] h m c
  show ?thesis by simp
qed

text \<open>
  Claim C8 as stated fails for a text that holds both separators: it is read as a
  POSIX path, where the backslash is part of a component, so it resolves to a path other
  than that of the text with the backslash replaced by a slash.
\<close>

theorem separators_resolve_alike_counterexample:
  "map to_slash ex_mixed_relpath = ''raw/o/c2.yml''
   \<and> resolve_under ''/data'' (normalize_relpath ex_mixed_relpath)
       = [''/'', ''data'', ''raw'' @ [CHR 0x5C] @ ''o'', ''c2.yml'']
   \<and> resolve_under ''/data'' (normalize_relpath ''raw/o/c2.yml'')
       = [''/'', ''data'', ''raw'', ''o'', ''c2.yml'']"
  by (simp add: ex_mixed_relpath_def to_slash_def resolve_under_def normalize_relpath_def
      windows_style_def path_of_def posix_join_def join_step_def posix_parts_def
      components_def)

text \<open>A drive prefix also separates the two readings of a text without slash.\<close>

lemma drive_prefix_differs:
  "normalize_relpath (''C:a'' @ [CHR 0x5C] @ ''b'') = [''C:'', ''a'', ''b'']
   \<and> normalize_relpath (map to_slash (''C:a'' @ [CHR 0x5C] @ ''b'')) = [''C:a'', ''b'']"
  by (simp add: to_slash_def normalize_relpath_def windows_style_def windows_parts_def
      nt_splitroot_def path_of_def posix_join_def join_step_def posix_parts_def
      components_def)

section \<open>Properties of the text read\<close>

text \<open>
  Arithmetic of the UTF-8 bit layout: a code point assembled from a lead part and
  six-bit parts has these parts as its quotients and remainders, and the bytes of its
  encoding are the lead and continuation bytes it was assembled from.
\<close>

lemma split2:
  fixes a x :: nat
  assumes "x < 64"
  shows "(a * 64 + x) div 64 = a" "(a * 64 + x) mod 64 = x"
  using assms by (simp_all only: div_mult_self3 mod_mult_self3 div_less mod_less)

lemma split3:
  fixes a x y :: nat
  assumes "x < 64" "y < 64"
  shows "(a * 4096 + x * 64 + y) div 4096 = a"
    "(a * 4096 + x * 64 + y) div 64 mod 64 = x"
    "(a * 4096 + x * 64 + y) mod 64 = y"
proof -
  have e: "a * 4096 + x * 64 + y = (a * 64 + x) * 64 + y" by simp
  have d: "((a * 64 + x) * 64 + y) div 64 = a * 64 + x"
    using assms(2) by (simp only: div_mult_self3 div_less)
  have m: "((a * 64 + x) * 64 + y) mod 64 = y"
    using assms(2) by (simp only: mod_mult_self3 mod_less)
  have dm: "(a * 64 + x) mod 64 = x"
    using assms(1) by (simp only: mod_mult_self3 mod_less)
  show "(a * 4096 + x * 64 + y) div 64 mod 64 = x" by (simp only: e d dm)
  show "(a * 4096 + x * 64 + y) mod 64 = y" by (simp only: e m)
  have lt: "x * 64 + y < 4096" using assms by linarith
  have e2: "a * 4096 + x * 64 + y = a * 4096 + (x * 64 + y)" by simp
  show "(a * 4096 + x * 64 + y) div 4096 = a"
    using lt by (simp only: e2 div_mult_self3 div_less)
qed

lemma split4:
  fixes a x y z :: nat
  assumes "x < 64" "y < 64" "z < 64"
  shows "(a * 262144 + x * 4096 + y * 64 + z) div 262144 = a"
    "(a * 262144 + x * 4096 + y * 64 + z) div 4096 mod 64 = x"
    "(a * 262144 + x * 4096 + y * 64 + z) div 64 mod 64 = y"
    "(a * 262144 + x * 4096 + y * 64 + z) mod 64 = z"
proof -
  have e: "a * 262144 + x * 4096 + y * 64 + z = (a * 64 + x) * 4096 + y * 64 + z" by simp
  have dm: "(a * 64 + x) mod 64 = x"
    using assms(1) by (simp only: mod_mult_self3 mod_less)
  note s = split3 [OF assms(2,3), of "a * 64 + x"]
  show "(a * 262144 + x * 4096 + y * 64 + z) div 4096 mod 64 = x" by (simp only: e s dm)
  show "(a * 262144 + x * 4096 + y * 64 + z) div 64 mod 64 = y" by (simp only: e s)
  show "(a * 262144 + x * 4096 + y * 64 + z) mod 64 = z" by (simp only: e s)
  have lt: "x * 4096 + y * 64 + z < 262144" using assms by linarith
  have e2: "a * 262144 + x * 4096 + y * 64 + z = a * 262144 + (x * 4096 + y * 64 + z)"
    by simp
  show "(a * 262144 + x * 4096 + y * 64 + z) div 262144 = a"
    using lt by (simp only: e2 div_mult_self3 div_less)
qed

lemma enc2:
  fixes a x :: nat
  assumes "2 \<le> a" "a < 32" "x < 64"
  shows "utf8_bytes (a * 64 + x) = [0xC0 + a, 0x80 + x]" "scalar_value (a * 64 + x)"
proof -
  have lo: "\<not> a * 64 + x < 0x80" using assms by linarith
  have hi: "a * 64 + x < 0x800" using assms by linarith
  show "utf8_bytes (a * 64 + x) = [0xC0 + a, 0x80 + x]"
    unfolding utf8_bytes_def by (simp only: lo hi if_True if_False split2 [OF assms(3)])
  show "scalar_value (a * 64 + x)"
    unfolding scalar_value_def using hi by linarith
qed

lemma enc3:
  fixes a x y :: nat
  assumes "a < 16" "x < 64" "y < 64" "a = 0 \<longrightarrow> 32 \<le> x" "a = 13 \<longrightarrow> x < 32"
  shows "utf8_bytes (a * 4096 + x * 64 + y) = [0xE0 + a, 0x80 + x, 0x80 + y]"
    "scalar_value (a * 4096 + x * 64 + y)"
proof -
  have lo: "\<not> a * 4096 + x * 64 + y < 0x800" using assms by (cases "a = 0") linarith+
  then have lo1: "\<not> a * 4096 + x * 64 + y < 0x80" by linarith
  have hi: "a * 4096 + x * 64 + y < 0x10000" using assms by linarith
  show "utf8_bytes (a * 4096 + x * 64 + y) = [0xE0 + a, 0x80 + x, 0x80 + y]"
    unfolding utf8_bytes_def
    by (simp only: lo lo1 hi if_True if_False split3 [OF assms(2,3)])
  have "a < 13 \<or> a = 13 \<or> 13 < a" by linarith
  then show "scalar_value (a * 4096 + x * 64 + y)"
    unfolding scalar_value_def using assms hi by (elim disjE) linarith+
qed

lemma enc4:
  fixes a x y z :: nat
  assumes "a < 5" "x < 64" "y < 64" "z < 64" "a = 0 \<longrightarrow> 16 \<le> x" "a = 4 \<longrightarrow> x < 16"
  shows "utf8_bytes (a * 262144 + x * 4096 + y * 64 + z)
           = [0xF0 + a, 0x80 + x, 0x80 + y, 0x80 + z]"
    "scalar_value (a * 262144 + x * 4096 + y * 64 + z)"
proof -
  have lo: "\<not> a * 262144 + x * 4096 + y * 64 + z < 0x10000"
    using assms by (cases "a = 0") linarith+
  then have lo1: "\<not> a * 262144 + x * 4096 + y * 64 + z < 0x80"
    and lo2: "\<not> a * 262144 + x * 4096 + y * 64 + z < 0x800" by linarith+
  show "utf8_bytes (a * 262144 + x * 4096 + y * 64 + z)
           = [0xF0 + a, 0x80 + x, 0x80 + y, 0x80 + z]"
    unfolding utf8_bytes_def
    by (simp only: lo lo1 lo2 if_True if_False split4 [OF assms(2,3,4)])
  have "a < 4 \<or> a = 4" using assms(1) by linarith
  then have "a * 262144 + x * 4096 + y * 64 + z < 0x110000"
    using assms by (elim disjE) linarith+
  then show "scalar_value (a * 262144 + x * 4096 + y * 64 + z)"
    unfolding scalar_value_def using lo by linarith
qed

text \<open>
  The decoding step by the class of the lead byte.
\<close>

lemma utf8_step_ascii:
  "unat b < 0x80 \<Longrightarrow> utf8_step b bs = (Some (unat b), 1)"
  by (simp add: utf8_step_def)

lemma utf8_step_no_lead:
  "(0x80 \<le> unat b \<and> unat b < 0xC2) \<or> 0xF5 \<le> unat b \<Longrightarrow> utf8_step b bs = (None, 1)"
  by (auto simp add: utf8_step_def)

lemma utf8_step_lead2:
  "0xC2 \<le> unat b \<Longrightarrow> unat b < 0xE0 \<Longrightarrow>
   utf8_step b bs =
     (case bs of
        [] \<Rightarrow> (None, 1)
      | b1 # bs1 \<Rightarrow>
          if continuation b1 then (Some ((unat b - 0xC0) * 64 + low6 b1), 2) else (None, 1))"
  by (simp add: utf8_step_def)

lemma utf8_step_lead3:
  "0xE0 \<le> unat b \<Longrightarrow> unat b < 0xF0 \<Longrightarrow>
   utf8_step b bs =
     (case bs of
        [] \<Rightarrow> (None, 1)
      | b1 # bs1 \<Rightarrow>
          if second_of3 (unat b) b1
          then (case bs1 of
                  [] \<Rightarrow> (None, 2)
                | b2 # bs2 \<Rightarrow>
                    if continuation b2
                    then (Some ((unat b - 0xE0) * 4096 + low6 b1 * 64 + low6 b2), 3)
                    else (None, 2))
          else (None, 1))"
  by (simp add: utf8_step_def Let_def)

lemma utf8_step_lead4:
  "0xF0 \<le> unat b \<Longrightarrow> unat b < 0xF5 \<Longrightarrow>
   utf8_step b bs =
     (case bs of
        [] \<Rightarrow> (None, 1)
      | b1 # bs1 \<Rightarrow>
          if second_of4 (unat b) b1
          then (case bs1 of
                  [] \<Rightarrow> (None, 2)
                | b2 # bs2 \<Rightarrow>
                    if continuation b2
                    then (case bs2 of
                            [] \<Rightarrow> (None, 3)
                          | b3 # bs3 \<Rightarrow>
                              if continuation b3
                              then (Some ((unat b - 0xF0) * 262144 + low6 b1 * 4096
                                          + low6 b2 * 64 + low6 b3), 4)
                              else (None, 3))
                    else (None, 2))
          else (None, 1))"
  by (simp add: utf8_step_def Let_def)

lemma lead_cases:
  fixes l :: nat
  obtains (ascii) "l < 0x80"
    | (no_lead) "(0x80 \<le> l \<and> l < 0xC2) \<or> 0xF5 \<le> l"
    | (lead2) "0xC2 \<le> l" "l < 0xE0"
    | (lead3) "0xE0 \<le> l" "l < 0xF0"
    | (lead4) "0xF0 \<le> l" "l < 0xF5"
  by linarith

lemma utf8_step_consumes:
  "utf8_step b bs = (r, n) \<Longrightarrow> 1 \<le> n \<and> n \<le> Suc (length bs)"
proof (cases "unat b" rule: lead_cases)
  case ascii
  then show "utf8_step b bs = (r, n) \<Longrightarrow> ?thesis" by (simp add: utf8_step_ascii)
next
  case no_lead
  then show "utf8_step b bs = (r, n) \<Longrightarrow> ?thesis" by (simp add: utf8_step_no_lead)
next
  case lead2
  then show "utf8_step b bs = (r, n) \<Longrightarrow> ?thesis"
    by (auto simp add: utf8_step_lead2 split: list.splits if_splits)
next
  case lead3
  then show "utf8_step b bs = (r, n) \<Longrightarrow> ?thesis"
    by (auto simp add: utf8_step_lead3 split: list.splits if_splits)
next
  case lead4
  then show "utf8_step b bs = (r, n) \<Longrightarrow> ?thesis"
    by (auto simp add: utf8_step_lead4 split: list.splits if_splits)
qed

text \<open>
  A step that gives a code point gives a scalar value and consumes its encoding; and the
  encoding of a scalar value at the front of the input is decoded to it.
\<close>

lemma low6_continuation:
  assumes "0x80 \<le> unat b" "unat b \<le> 0xBF"
  shows "low6 b < 64" "unat b = 0x80 + low6 b"
  using assms unfolding low6_def by linarith+

lemma utf8_step_sound:
  assumes "utf8_step b bs = (Some cp, n)"
  shows "scalar_value cp \<and> map unat (take n (b # bs)) = utf8_bytes cp"
proof (cases "unat b" rule: lead_cases)
  case ascii
  with assms have "cp = unat b" "n = 1" by (simp_all add: utf8_step_ascii)
  with ascii show ?thesis by (simp add: scalar_value_def utf8_bytes_def)
next
  case no_lead
  with assms show ?thesis by (simp add: utf8_step_no_lead)
next
  case lead2
  with assms obtain b1 bs1 where bs: "bs = b1 # bs1" and c1: "continuation b1"
    and cp: "cp = (unat b - 0xC0) * 64 + low6 b1" and n: "n = 2"
    by (auto simp add: utf8_step_lead2 split: list.splits if_splits)
  define a where "a = unat b - 0xC0"
  define x where "x = low6 b1"
  have a: "2 \<le> a" "a < 32" "unat b = 0xC0 + a" using lead2 by (simp_all add: a_def)
  have x: "x < 64" "unat b1 = 0x80 + x"
    using c1 low6_continuation [of b1] by (simp_all add: x_def continuation_def)
  have "take n (b # bs) = [b, b1]" by (simp add: bs n)
  then have "map unat (take n (b # bs)) = [0xC0 + a, 0x80 + x]" by (simp only: list.map a x)
  moreover have "cp = a * 64 + x" by (simp only: cp a_def x_def)
  ultimately show ?thesis using enc2 [OF a(1,2) x(1)] by simp
next
  case lead3
  with assms obtain b1 b2 bs2 where bs: "bs = b1 # b2 # bs2"
    and c1: "second_of3 (unat b) b1" and c2: "continuation b2"
    and cp: "cp = (unat b - 0xE0) * 4096 + low6 b1 * 64 + low6 b2" and n: "n = 3"
    by (auto simp add: utf8_step_lead3 split: list.splits if_splits)
  define a where "a = unat b - 0xE0"
  define x where "x = low6 b1"
  define y where "y = low6 b2"
  have a: "a < 16" "unat b = 0xE0 + a" using lead3 by (simp_all add: a_def)
  have c1': "0x80 \<le> unat b1" "unat b1 \<le> 0xBF" "unat b = 0xE0 \<longrightarrow> 0xA0 \<le> unat b1"
    "unat b = 0xED \<longrightarrow> unat b1 \<le> 0x9F"
    using c1 by (auto simp add: second_of3_def continuation_def split: if_splits)
  have x: "x < 64" "unat b1 = 0x80 + x"
    using low6_continuation [OF c1'(1,2)] by (simp_all add: x_def)
  have y: "y < 64" "unat b2 = 0x80 + y"
    using c2 low6_continuation [of b2] by (simp_all add: y_def continuation_def)
  have r: "a = 0 \<longrightarrow> 32 \<le> x" "a = 13 \<longrightarrow> x < 32"
    using c1'(3,4) a(2) x(2) by auto
  have "take n (b # bs) = [b, b1, b2]" by (simp add: bs n)
  then have "map unat (take n (b # bs)) = [0xE0 + a, 0x80 + x, 0x80 + y]"
    by (simp only: list.map a x y)
  moreover have "cp = a * 4096 + x * 64 + y" by (simp only: cp a_def x_def y_def)
  ultimately show ?thesis using enc3 [OF a(1) x(1) y(1) r] by simp
next
  case lead4
  with assms obtain b1 b2 b3 bs3 where bs: "bs = b1 # b2 # b3 # bs3"
    and c1: "second_of4 (unat b) b1" and c2: "continuation b2" and c3: "continuation b3"
    and cp: "cp = (unat b - 0xF0) * 262144 + low6 b1 * 4096 + low6 b2 * 64 + low6 b3"
    and n: "n = 4"
    by (auto simp add: utf8_step_lead4 split: list.splits if_splits)
  define a where "a = unat b - 0xF0"
  define x where "x = low6 b1"
  define y where "y = low6 b2"
  define z where "z = low6 b3"
  have a: "a < 5" "unat b = 0xF0 + a" using lead4 by (simp_all add: a_def)
  have c1': "0x80 \<le> unat b1" "unat b1 \<le> 0xBF" "unat b = 0xF0 \<longrightarrow> 0x90 \<le> unat b1"
    "unat b = 0xF4 \<longrightarrow> unat b1 \<le> 0x8F"
    using c1 by (auto simp add: second_of4_def continuation_def split: if_splits)
  have x: "x < 64" "unat b1 = 0x80 + x"
    using low6_continuation [OF c1'(1,2)] by (simp_all add: x_def)
  have y: "y < 64" "unat b2 = 0x80 + y"
    using c2 low6_continuation [of b2] by (simp_all add: y_def continuation_def)
  have z: "z < 64" "unat b3 = 0x80 + z"
    using c3 low6_continuation [of b3] by (simp_all add: z_def continuation_def)
  have r: "a = 0 \<longrightarrow> 16 \<le> x" "a = 4 \<longrightarrow> x < 16"
    using c1'(3,4) a(2) x(2) by auto
  have "take n (b # bs) = [b, b1, b2, b3]" by (simp add: bs n)
  then have "map unat (take n (b # bs)) = [0xF0 + a, 0x80 + x, 0x80 + y, 0x80 + z]"
    by (simp only: list.map a x y z)
  moreover have "cp = a * 262144 + x * 4096 + y * 64 + z"
    by (simp only: cp a_def x_def y_def z_def)
  ultimately show ?thesis using enc4 [OF a(1) x(1) y(1) z(1) r] by simp
qed

lemma recompose2:
  fixes cp :: nat
  shows "cp = (cp div 64) * 64 + cp mod 64" "cp mod 64 < 64"
  by simp_all

lemma recompose3:
  fixes cp :: nat
  shows "cp = (cp div 4096) * 4096 + (cp div 64 mod 64) * 64 + cp mod 64"
proof -
  have d: "cp div 64 div 64 = cp div 4096"
    using div_mult2_eq [of cp 64 64] by simp
  have glue: "q = q2 * 64 + r2 \<Longrightarrow> c = q * 64 + r \<Longrightarrow> c = q2 * 4096 + r2 * 64 + r"
    for c q r q2 r2 :: nat by simp
  from glue [OF recompose2(1) [of "cp div 64"] recompose2(1) [of cp]]
  show ?thesis by (simp only: d)
qed

lemma recompose4:
  fixes cp :: nat
  shows "cp = (cp div 262144) * 262144 + (cp div 4096 mod 64) * 4096
              + (cp div 64 mod 64) * 64 + cp mod 64"
proof -
  have d1: "cp div 64 div 4096 = cp div 262144"
    using div_mult2_eq [of cp 64 4096] by simp
  have d2: "cp div 64 div 64 = cp div 4096"
    using div_mult2_eq [of cp 64 64] by simp
  have glue: "q = q3 * 4096 + r3 * 64 + r2 \<Longrightarrow> c = q * 64 + r
      \<Longrightarrow> c = q3 * 262144 + r3 * 4096 + r2 * 64 + r"
    for c q r q3 r3 r2 :: nat by simp
  from glue [OF recompose3 [of "cp div 64"] recompose2(1) [of cp]]
  show ?thesis by (simp only: d1 d2)
qed

lemma size_cases:
  fixes cp :: nat
  obtains (one) "cp < 0x80"
    | (two) "0x80 \<le> cp" "cp < 0x800"
    | (three) "0x800 \<le> cp" "cp < 0x10000"
    | (four) "0x10000 \<le> cp"
  by linarith

lemma utf8_step_complete:
  assumes sc: "scalar_value cp" and enc: "map unat (b # front) = utf8_bytes cp"
  shows "utf8_step b (front @ rest) = (Some cp, Suc (length front))"
proof (cases cp rule: size_cases)
  case one
  with enc have "unat b = cp" "front = []" by (simp_all add: utf8_bytes_def)
  with one show ?thesis by (simp add: utf8_step_ascii)
next
  case two
  define a where "a = cp div 64"
  define x where "x = cp mod 64"
  have cp: "cp = a * 64 + x" and x: "x < 64"
    unfolding a_def x_def by (rule recompose2)+
  have a: "2 \<le> a" "a < 32" using two cp x by linarith+
  have "utf8_bytes cp = [0xC0 + a, 0x80 + x]"
    using enc2 [OF a x] cp by simp
  with enc obtain b1 where f: "front = [b1]" and b: "unat b = 0xC0 + a"
    and b1: "unat b1 = 0x80 + x" by auto
  have "continuation b1" "low6 b1 = x" using b1 x by (simp_all add: continuation_def low6_def)
  moreover have "0xC2 \<le> unat b" "unat b < 0xE0" "unat b - 0xC0 = a" using a b by simp_all
  ultimately show ?thesis by (simp add: utf8_step_lead2 f cp)
next
  case three
  define a where "a = cp div 4096"
  define x where "x = cp div 64 mod 64"
  define y where "y = cp mod 64"
  have cp: "cp = a * 4096 + x * 64 + y"
    unfolding a_def x_def y_def by (rule recompose3)
  have x: "x < 64" and y: "y < 64" unfolding x_def y_def by simp_all
  have a: "a < 16" using three cp x y by linarith
  have r0: "a = 0 \<longrightarrow> 32 \<le> x" using three cp x y by auto
  have "cp < 0xD800 \<or> 0xE000 \<le> cp" using sc unfolding scalar_value_def by blast
  then have r13: "a = 13 \<longrightarrow> x < 32" using cp x y by auto
  have "utf8_bytes cp = [0xE0 + a, 0x80 + x, 0x80 + y]"
    using enc3 [OF a x y r0 r13] cp by simp
  with enc obtain b1 b2 where f: "front = [b1, b2]" and b: "unat b = 0xE0 + a"
    and b1: "unat b1 = 0x80 + x" and b2: "unat b2 = 0x80 + y" by auto
  have "continuation b2" "low6 b2 = y" "low6 b1 = x"
    using b1 b2 y by (simp_all add: continuation_def low6_def)
  moreover have "second_of3 (unat b) b1"
    using b b1 x r0 r13 by (auto simp add: second_of3_def continuation_def)
  moreover have "0xE0 \<le> unat b" "unat b < 0xF0" "unat b - 0xE0 = a" using a b by simp_all
  ultimately show ?thesis by (simp add: utf8_step_lead3 f cp)
next
  case four
  define a where "a = cp div 262144"
  define x where "x = cp div 4096 mod 64"
  define y where "y = cp div 64 mod 64"
  define z where "z = cp mod 64"
  have cp: "cp = a * 262144 + x * 4096 + y * 64 + z"
    unfolding a_def x_def y_def z_def by (rule recompose4)
  have x: "x < 64" and y: "y < 64" and z: "z < 64" unfolding x_def y_def z_def by simp_all
  have hi: "cp < 0x110000" using sc four unfolding scalar_value_def by linarith
  have a: "a < 5" using hi cp by linarith
  have r0: "a = 0 \<longrightarrow> 16 \<le> x" using four cp x y z by auto
  have r4: "a = 4 \<longrightarrow> x < 16" using hi cp by auto
  have "utf8_bytes cp = [0xF0 + a, 0x80 + x, 0x80 + y, 0x80 + z]"
    using enc4 [OF a x y z r0 r4] cp by simp
  with enc obtain b1 b2 b3 where f: "front = [b1, b2, b3]" and b: "unat b = 0xF0 + a"
    and b1: "unat b1 = 0x80 + x" and b2: "unat b2 = 0x80 + y" and b3: "unat b3 = 0x80 + z"
    by auto
  have "continuation b2" "continuation b3" "low6 b3 = z" "low6 b2 = y" "low6 b1 = x"
    using b1 b2 b3 y z by (simp_all add: continuation_def low6_def)
  moreover have "second_of4 (unat b) b1"
    using b b1 x r0 r4 by (auto simp add: second_of4_def continuation_def)
  moreover have "0xF0 \<le> unat b" "unat b < 0xF5" "unat b - 0xF0 = a" using a b by simp_all
  ultimately show ?thesis by (simp add: utf8_step_lead4 f cp)
qed

text \<open>
  The scan of the whole input.
\<close>

lemma utf8_scan_Cons:
  assumes "utf8_step b bs = (r, n)"
  shows "utf8_scan (b # bs) = r # utf8_scan (drop (n - 1) bs)"
    "map unat (b # bs) = map unat (take n (b # bs)) @ map unat (drop (n - 1) bs)"
proof -
  show "utf8_scan (b # bs) = r # utf8_scan (drop (n - 1) bs)" using assms by simp
  have "1 \<le> n" using utf8_step_consumes [OF assms] by simp
  then have "drop n (b # bs) = drop (n - 1) bs" by (cases n) simp_all
  then have "b # bs = take n (b # bs) @ drop (n - 1) bs"
    using append_take_drop_id [of n "b # bs"] by simp
  then show "map unat (b # bs) = map unat (take n (b # bs)) @ map unat (drop (n - 1) bs)"
    using map_append [of unat "take n (b # bs)" "drop (n - 1) bs"] by simp
qed

lemma utf8_scan_sound:
  "(\<forall>cp. Some cp \<in> set (utf8_scan data) \<longrightarrow> scalar_value cp)
   \<and> subseq (concat (map utf8_bytes
                (concat (map (\<lambda>m. case m of None \<Rightarrow> [] | Some c \<Rightarrow> [c]) (utf8_scan data)))))
        (map unat data)"
proof (induction data rule: utf8_scan.induct)
  case 1
  show ?case by simp
next
  case (2 b bs)
  obtain r n where st: "utf8_step b bs = (r, n)" by (cases "utf8_step b bs")
  note ih = 2 [OF st [symmetric]]
  note eq = utf8_scan_Cons [OF st]
  show ?case
  proof (cases r)
    case None
    have "subseq (concat (map utf8_bytes
            (concat (map (\<lambda>m. case m of None \<Rightarrow> [] | Some c \<Rightarrow> [c])
               (utf8_scan (drop (n - 1) bs))))))
          (map unat (take n (b # bs)) @ map unat (drop (n - 1) bs))"
      using ih by (simp only: list_emb_append2)
    with ih None show ?thesis by (simp only: eq) simp
  next
    case (Some cp)
    from utf8_step_sound [OF st [unfolded Some]]
    have sc: "scalar_value cp" and tk: "map unat (take n (b # bs)) = utf8_bytes cp"
      by simp_all
    have "subseq (utf8_bytes cp @ concat (map utf8_bytes
            (concat (map (\<lambda>m. case m of None \<Rightarrow> [] | Some c \<Rightarrow> [c])
               (utf8_scan (drop (n - 1) bs))))))
          (utf8_bytes cp @ map unat (drop (n - 1) bs))"
      using ih by (simp only: list_emb_append_mono subseq_order.refl)
    with ih sc Some show ?thesis by (simp only: eq tk) auto
  qed
qed

lemma utf8_bytes_nonempty: "utf8_bytes cp \<noteq> []"
  by (simp add: utf8_bytes_def)

lemma utf8_scan_complete:
  assumes "\<forall>cp \<in> set cps. scalar_value cp" "map unat front = concat (map utf8_bytes cps)"
  shows "utf8_scan (front @ rest) = map Some cps @ utf8_scan rest"
  using assms
proof (induction cps arbitrary: front)
  case Nil
  then show ?case by simp
next
  case (Cons cp cps)
  define k where "k = length (utf8_bytes cp)"
  have e: "map unat front = utf8_bytes cp @ concat (map utf8_bytes cps)"
    using Cons.prems(2) by simp
  have t: "map unat (take k front) = utf8_bytes cp"
    using arg_cong [OF e, of "take k"] by (simp add: take_map k_def)
  have d: "map unat (drop k front) = concat (map utf8_bytes cps)"
    using arg_cong [OF e, of "drop k"] by (simp add: drop_map k_def)
  from t utf8_bytes_nonempty [of cp] obtain b f1 where f1: "take k front = b # f1"
    by (cases "take k front") auto
  have "length (take k front) = k"
    using arg_cong [OF t, of length] by (simp only: length_map k_def)
  then have len: "Suc (length f1) = k" unfolding f1 by simp
  have sc: "scalar_value cp" using Cons.prems(1) by simp
  have st: "utf8_step b (f1 @ drop k front @ rest) = (Some cp, Suc (length f1))"
    by (rule utf8_step_complete [OF sc t [unfolded f1]])
  have fr: "front @ rest = b # f1 @ drop k front @ rest"
    using append_take_drop_id [of k front] f1 by (metis append_Cons append_assoc)
  have "utf8_scan (b # f1 @ drop k front @ rest)
          = Some cp # utf8_scan (drop (length f1) (f1 @ drop k front @ rest))"
    using st by simp
  then have "utf8_scan (front @ rest) = Some cp # utf8_scan (drop k front @ rest)"
    by (simp only: fr) simp
  moreover have "utf8_scan (drop k front @ rest) = map Some cps @ utf8_scan rest"
    using Cons.IH [OF _ d] Cons.prems(1) by simp
  ultimately show ?case by simp
qed

lemma second_continuation:
  "second_of3 l f \<Longrightarrow> continuation f" "second_of4 l f \<Longrightarrow> continuation f"
  by (auto simp add: second_of3_def second_of4_def continuation_def split: if_splits)

lemma utf8_step_append:
  assumes "post \<noteq> [] \<longrightarrow> \<not> continuation (hd post)"
  shows "utf8_step b (bs @ post) = utf8_step b bs"
proof (cases post)
  case Nil
  then show ?thesis by simp
next
  case (Cons f fs)
  with assms have nc: "\<not> continuation f" "\<not> second_of3 (unat b) f" "\<not> second_of4 (unat b) f"
    using second_continuation [of "unat b" f] by auto
  show ?thesis
  proof (cases "unat b" rule: lead_cases)
    case ascii
    then show ?thesis by (simp add: utf8_step_ascii)
  next
    case no_lead
    then show ?thesis by (simp add: utf8_step_no_lead)
  next
    case lead2
    then show ?thesis using nc by (simp add: utf8_step_lead2 Cons split: list.splits)
  next
    case lead3
    then show ?thesis using nc by (simp add: utf8_step_lead3 Cons split: list.splits)
  next
    case lead4
    then show ?thesis using nc by (simp add: utf8_step_lead4 Cons split: list.splits)
  qed
qed

lemma utf8_scan_append:
  assumes "post \<noteq> [] \<longrightarrow> \<not> continuation (hd post)"
  shows "utf8_scan (pre @ post) = utf8_scan pre @ utf8_scan post"
proof (induction pre rule: utf8_scan.induct)
  case 1
  show ?case by simp
next
  case (2 b bs)
  obtain r n where st: "utf8_step b bs = (r, n)" by (cases "utf8_step b bs")
  note ih = 2 [OF st [symmetric]]
  have "n - 1 \<le> length bs" using utf8_step_consumes [OF st] by linarith
  then have d: "drop (n - 1) (bs @ post) = drop (n - 1) bs @ post" by simp
  have "utf8_step b (bs @ post) = (r, n)" using utf8_step_append [OF assms] st by simp
  then have "utf8_scan (b # bs @ post) = r # utf8_scan (drop (n - 1) (bs @ post))"
    by (simp del: drop_append)
  then have "utf8_scan (b # bs @ post) = r # utf8_scan (drop (n - 1) bs @ post)"
    by (simp only: d)
  with ih st show ?case by simp
qed

lemma decode_ignore_sound:
  "\<exists>s. decode_utf8 Ignore data = Inr s \<and> (\<forall>cp \<in> set s. scalar_value cp)
        \<and> subseq (concat (map utf8_bytes s)) (map unat data)"
proof -
  have "\<forall>cp \<in> set (concat (map (\<lambda>m. case m of None \<Rightarrow> [] | Some c \<Rightarrow> [c]) (utf8_scan data))).
          scalar_value cp"
    using utf8_scan_sound [of data] by (auto split: option.splits)
  then show ?thesis using utf8_scan_sound [of data] by (simp add: decode_utf8_def)
qed

lemma decode_ignore_complete:
  assumes "\<forall>cp \<in> set cps. scalar_value cp" "map unat valid = concat (map utf8_bytes cps)"
  shows "\<exists>s. decode_utf8 Ignore rest = Inr s \<and> decode_utf8 Ignore (valid @ rest) = Inr (cps @ s)"
proof -
  have "concat (map (\<lambda>m. case m of None \<Rightarrow> [] | Some c \<Rightarrow> [c]) (map Some cps)) = cps"
    by (induction cps) simp_all
  then show ?thesis using utf8_scan_complete [OF assms, of rest] by (simp add: decode_utf8_def)
qed

lemma decode_ignore_append:
  assumes "post \<noteq> [] \<longrightarrow> \<not> continuation (hd post)"
  shows "\<exists>s t. decode_utf8 Ignore pre = Inr s \<and> decode_utf8 Ignore post = Inr t
           \<and> decode_utf8 Ignore (pre @ post) = Inr (s @ t)"
  using utf8_scan_append [OF assms, of pre] by (simp add: decode_utf8_def)

lemma decode_ignore_no_lead:
  assumes "(0x80 \<le> unat b \<and> unat b < 0xC2) \<or> 0xF5 \<le> unat b"
  shows "decode_utf8 Ignore (b # bs) = decode_utf8 Ignore bs"
  using utf8_step_no_lead [OF assms, of bs] by (simp add: decode_utf8_def)

lemma read_text_raises:
  "read_text_maybe_gz name gz raw = Inl e
     \<longleftrightarrow> (if suffix_of name = ''.gz'' then gz = Inl e else raw = Inl e)"
  by (simp add: read_text_maybe_gz_def decode_utf8_def split: sum.splits)

text \<open>
  Claim C6, as amended.  The text read raises exactly what opening, decompressing or
  reading the file raises (the decompressed read for a name with the suffix \<open>.gz\<close>,
  the plain read otherwise); decoding never raises, so the single-byte fallback is never
  taken.  Otherwise it returns the UTF-8 decoding of the bytes with ill-formed sequences
  left out, for a name without the suffix with line ends normalised:
  every code point decoded is a Unicode scalar value and the encodings of the decoded
  code points, one after the other, are a subsequence of the bytes read, so nothing is
  put in the place of what is left out; well-formed UTF-8 at the front is returned as it
  is, followed by the decoding of the rest; decoding starts afresh at every byte that is
  not a continuation byte, so the pieces before and after it decode on their own; and a
  byte that cannot start a sequence (\<open>0x80\<close> to \<open>0xC1\<close>, \<open>0xF5\<close> and above)
  is left out.
\<close>

theorem read_text_drops_ill_formed:
  "(read_text_maybe_gz name gz raw = Inl e
      \<longleftrightarrow> (if suffix_of name = ''.gz'' then gz = Inl e else raw = Inl e))
   \<and> (\<exists>s. decode_utf8 Ignore data = Inr s
          \<and> (\<forall>cp \<in> set s. scalar_value cp)
          \<and> subseq (concat (map utf8_bytes s)) (map unat data)
          \<and> (suffix_of name = ''.gz'' \<longrightarrow> read_text_maybe_gz name (Inr data) raw = Inr s)
          \<and> (suffix_of name \<noteq> ''.gz'' \<longrightarrow>
                read_text_maybe_gz name gz (Inr data) = Inr (universal_newlines s)))
   \<and> ((\<forall>cp \<in> set cps. scalar_value cp) \<and> map unat valid = concat (map utf8_bytes cps) \<longrightarrow>
        (\<exists>s. decode_utf8 Ignore rest = Inr s
              \<and> decode_utf8 Ignore (valid @ rest) = Inr (cps @ s)))
   \<and> ((post \<noteq> [] \<longrightarrow> \<not> continuation (hd post)) \<longrightarrow>
        (\<exists>s t. decode_utf8 Ignore pre = Inr s \<and> decode_utf8 Ignore post = Inr t
              \<and> decode_utf8 Ignore (pre @ post) = Inr (s @ t)))
   \<and> ((0x80 \<le> unat b \<and> unat b < 0xC2) \<or> 0xF5 \<le> unat b \<longrightarrow>
        decode_utf8 Ignore (b # bs) = decode_utf8 Ignore bs)"
proof (intro conjI impI)
  show "read_text_maybe_gz name gz raw = Inl e
      \<longleftrightarrow> (if suffix_of name = ''.gz'' then gz = Inl e else raw = Inl e)"
    by (rule read_text_raises)
  from decode_ignore_sound [of data] obtain s where s: "decode_utf8 Ignore data = Inr s"
    "\<forall>cp \<in> set s. scalar_value cp" "subseq (concat (map utf8_bytes s)) (map unat data)"
    by blast
  then show "\<exists>s. decode_utf8 Ignore data = Inr s
          \<and> (\<forall>cp \<in> set s. scalar_value cp)
          \<and> subseq (concat (map utf8_bytes s)) (map unat data)
          \<and> (suffix_of name = ''.gz'' \<longrightarrow> read_text_maybe_gz name (Inr data) raw = Inr s)
          \<and> (suffix_of name \<noteq> ''.gz'' \<longrightarrow>
                read_text_maybe_gz name gz (Inr data) = Inr (universal_newlines s))"
    by (simp add: read_text_maybe_gz_def)
next
  assume "(\<forall>cp \<in> set cps. scalar_value cp) \<and> map unat valid = concat (map utf8_bytes cps)"
  then show "\<exists>s. decode_utf8 Ignore rest = Inr s
              \<and> decode_utf8 Ignore (valid @ rest) = Inr (cps @ s)"
    using decode_ignore_complete [of cps valid rest] by blast
next
  assume "post \<noteq> [] \<longrightarrow> \<not> continuation (hd post)"
  then show "\<exists>s t. decode_utf8 Ignore pre = Inr s \<and> decode_utf8 Ignore post = Inr t
              \<and> decode_utf8 Ignore (pre @ post) = Inr (s @ t)"
    by (rule decode_ignore_append)
next
  assume "(0x80 \<le> unat b \<and> unat b < 0xC2) \<or> 0xF5 \<le> unat b"
  then show "decode_utf8 Ignore (b # bs) = decode_utf8 Ignore bs"
    by (rule decode_ignore_no_lead)
qed

theorem read_text_drops_ill_formed_witness:
  "suffix_of ''c2.yml.gz'' = ''.gz''
   \<and> read_text_maybe_gz ''c2.yml.gz'' (Inr ex_corrupt_bytes) (Inl OSError) = Inr [0x61, 0x62]
   \<and> suffix_of ''c2.yml'' \<noteq> ''.gz''
   \<and> read_text_maybe_gz ''c2.yml'' (Inl OSError) (Inr ex_corrupt_bytes) = Inr [0x61, 0x62]
   \<and> read_text_maybe_gz ''c2.yml.gz'' (Inl BadGzipFile) (Inr ex_corrupt_bytes)
       = Inl BadGzipFile
   \<and> scalar_value 0xE9
   \<and> map unat [0xC3, 0xA9 :: byte] = utf8_bytes 0xE9
   \<and> decode_utf8 Ignore ex_truncated_bytes = Inr [0xE9, 0x41]
   \<and> \<not> continuation (hd [0x41])
   \<and> 0xF5 \<le> unat (0xFF :: byte)"
proof -
  note iii = read_text_drops_ill_formed
    [THEN conjunct2, THEN conjunct2, THEN conjunct1, THEN mp]
  note iv = read_text_drops_ill_formed
    [THEN conjunct2, THEN conjunct2, THEN conjunct2, THEN conjunct1, THEN mp]
  note v = read_text_drops_ill_formed
    [THEN conjunct2, THEN conjunct2, THEN conjunct2, THEN conjunct2, THEN mp]
  have g: "suffix_of ''c2.yml.gz'' = ''.gz''" by (simp add: suffix_of_def)
  have y: "suffix_of ''c2.yml'' \<noteq> ''.gz''" by (simp add: suffix_of_def)
  have e: "decode_utf8 Ignore [] = Inr []" by (simp add: decode_utf8_def)
  have ff: "0xF5 \<le> unat (0xFF :: byte)" by simp
  have nc: "\<not> continuation (hd [0x41])" by (simp add: continuation_def)
  have a: "(\<forall>cp \<in> set [0x61]. scalar_value cp)
             \<and> map unat [0x61 :: byte] = concat (map utf8_bytes [0x61])"
    and b: "(\<forall>cp \<in> set [0x62]. scalar_value cp)
             \<and> map unat [0x62 :: byte] = concat (map utf8_bytes [0x62])"
    and c: "(\<forall>cp \<in> set [0x41]. scalar_value cp)
             \<and> map unat [0x41 :: byte] = concat (map utf8_bytes [0x41])"
    and acute: "(\<forall>cp \<in> set [0xE9]. scalar_value cp)
             \<and> map unat [0xC3, 0xA9 :: byte] = concat (map utf8_bytes [0xE9])"
    by (simp_all add: scalar_value_def utf8_bytes_def)
  from iii [of "[0x62]" "[0x62]" "[]", OF b] e
  have d1: "decode_utf8 Ignore [0x62] = Inr [0x62]" by auto
  from v [of "0xFF" "[0x62]"] ff d1
  have d2: "decode_utf8 Ignore [0xFF, 0x62] = Inr [0x62]" by simp
  from iii [of "[0x61]" "[0x61]" "[0xFF, 0x62]", OF a] d2
  have d3: "decode_utf8 Ignore ex_corrupt_bytes = Inr [0x61, 0x62]"
    by (auto simp add: ex_corrupt_bytes_def)
  have gz: "read_text_maybe_gz ''c2.yml.gz'' (Inr ex_corrupt_bytes) (Inl OSError)
              = Inr [0x61, 0x62]"
    using read_text_drops_ill_formed [where name = "''c2.yml.gz''"
        and data = ex_corrupt_bytes and raw = "Inl OSError", THEN conjunct2, THEN conjunct1]
      g d3 by auto
  have plain: "read_text_maybe_gz ''c2.yml'' (Inl OSError) (Inr ex_corrupt_bytes)
              = Inr [0x61, 0x62]"
    using read_text_drops_ill_formed [where name = "''c2.yml''"
        and data = ex_corrupt_bytes and gz = "Inl OSError", THEN conjunct2, THEN conjunct1]
      y d3 by auto
  have bad: "read_text_maybe_gz ''c2.yml.gz'' (Inl BadGzipFile) (Inr ex_corrupt_bytes)
       = Inl BadGzipFile"
    using read_text_drops_ill_formed [where name = "''c2.yml.gz''" and e = BadGzipFile
        and gz = "Inl BadGzipFile" and raw = "Inr ex_corrupt_bytes", THEN conjunct1] g
    by auto
  from iii [of "[0x41]" "[0x41]" "[]", OF c] e
  have t1: "decode_utf8 Ignore [0x41] = Inr [0x41]" by auto
  have t0: "decode_utf8 Ignore [0xE2, 0x82] = Inr []"
    by (simp add: decode_utf8_def utf8_step_def second_of3_def continuation_def)
  from iv [of "[0x41]" "[0xE2, 0x82]", OF impI, OF nc] t0 t1
  have t2: "decode_utf8 Ignore [0xE2, 0x82, 0x41] = Inr [0x41]" by auto
  from iii [of "[0xE9]" "[0xC3, 0xA9]" "[0xE2, 0x82, 0x41]", OF acute] t2
  have t3: "decode_utf8 Ignore ex_truncated_bytes = Inr [0xE9, 0x41]"
    by (auto simp add: ex_truncated_bytes_def)
  have acute': "scalar_value 0xE9" "map unat [0xC3, 0xA9 :: byte] = utf8_bytes 0xE9"
    using acute by simp_all
  from g gz y plain bad acute' t3 nc ff show ?thesis by blast
qed

text \<open>
  Claim C6 as stated fails twice.  An invalid byte between \<open>a\<close> and \<open>b\<close> is left
  out of the returned text, where the replacing decoder would put U+FFFD; and a file
  with the suffix \<open>.gz\<close> that is no gzip file makes the read raise.
\<close>

theorem read_text_drops_ill_formed_counterexample:
  "read_text_maybe_gz ''c2.yml'' (Inl OSError) (Inr ex_corrupt_bytes) = Inr [0x61, 0x62]
   \<and> decode_utf8 Replace ex_corrupt_bytes = Inr [0x61, 0xFFFD, 0x62]
   \<and> read_text_maybe_gz ''c2.yml.gz'' (Inl BadGzipFile) (Inr ex_corrupt_bytes)
       = Inl BadGzipFile"
  by (simp add: read_text_maybe_gz_def suffix_of_def decode_utf8_def ex_corrupt_bytes_def
      utf8_step_def)

end
